theory Spec2Isabelle
  imports Main
begin

unbundle bit_operations_syntax

section \<open>smallsh: a shallow embedding of \<^verbatim>\<open>src/main.c\<close>\<close>

text \<open>
  The shell is one C file: a global flag toggled by the SIGTSTP handler, the helper
  \<^verbatim>\<open>replace_double_dollarsigns\<close>, and \<^verbatim>\<open>main\<close>, whose endless loop reads a line,
  tokenizes it, runs a built-in or forks a child, and then polls for finished children.
  The model below follows the source statement by statement. The operating system is an
  explicit oracle (what \<^verbatim>\<open>getpid\<close>, \<^verbatim>\<open>fork\<close> and \<^verbatim>\<open>waitpid\<close> return), every
  system call and every line printed is an event of a trace, and every read the C
  standard leaves undefined (a null pointer, an index outside an array, an
  uninitialised variable, a write past a buffer) is a \<open>fault\<close> value. Two things are
  left out: the calls of \<^verbatim>\<open>fflush\<close>, and the failure of \<^verbatim>\<open>malloc\<close> and \<^verbatim>\<open>strdup\<close>.
\<close>

subsection \<open>Characters and C strings\<close>

text \<open>A C string is the list of its characters before the terminating NUL.\<close>

definition newline :: char where
  "newline = CHR 0x0A"

definition space :: char where
  "space = CHR 0x20"

definition dollar :: char where
  "dollar = CHR 0x24"

text \<open>\<^verbatim>\<open>isspace\<close> in the C locale: space, \<^verbatim>\<open>\t \n \v \f \r\<close>.\<close>

definition isspace :: "char \<Rightarrow> bool" where
  "isspace c = (c = CHR 0x20 \<or> c = CHR 0x09 \<or> c = CHR 0x0A \<or> c = CHR 0x0B
                 \<or> c = CHR 0x0C \<or> c = CHR 0x0D)"

text \<open>\<^verbatim>\<open>strstr(s, "$$") == s\<close>: the string starts with the placeholder.\<close>

definition starts_with_dd :: "string \<Rightarrow> bool" where
  "starts_with_dd s = (take 2 s = [dollar, dollar])"

text \<open>\<^verbatim>\<open>strstr(s, "$$") != NULL\<close>: the placeholder occurs somewhere in the string.\<close>

fun strstr_dd :: "string \<Rightarrow> bool" where
  "strstr_dd [] = False"
| "strstr_dd (c # cs) = (starts_with_dd (c # cs) \<or> strstr_dd cs)"

text \<open>\<^verbatim>\<open>sprintf(buffer, "%d", n)\<close>: the decimal digits, with a minus sign when negative.\<close>

definition digit_char :: "nat \<Rightarrow> char" where
  "digit_char d = char_of (48 + d)"

fun digits :: "nat \<Rightarrow> string" where
  "digits n = (if n < 10 then [digit_char n] else digits (n div 10) @ [digit_char (n mod 10)])"

declare digits.simps [simp del]

definition sprintf_d :: "int \<Rightarrow> string" where
  "sprintf_d n = (if n < 0 then CHR ''-'' # digits (nat (- n)) else digits (nat n))"

subsection \<open>Undefined behaviour as a value\<close>

datatype fault =
    NullDeref        \<comment> \<open>a null pointer handed to \<^verbatim>\<open>strcmp\<close> or \<^verbatim>\<open>sscanf\<close>\<close>
  | OutOfBounds      \<comment> \<open>an array read outside its bounds\<close>
  | UninitRead       \<comment> \<open>a read of memory never written\<close>
  | BufferOverflow   \<comment> \<open>a write past the end of a fixed buffer\<close>

subsection \<open>The SIGTSTP handler (lines 22, 35-48)\<close>

definition nul :: char where
  "nul = CHR 0x00"

definition msg_entering :: string where
  "msg_entering = newline # ''Entering foreground-only mode (& is now ignored)'' @ [newline]"

definition msg_exiting :: string where
  "msg_exiting = newline # ''Exiting foreground-only mode'' @ [newline]"

text \<open>
  \<^verbatim>\<open>write(STDOUT_FILENO, message, n)\<close> sends the first \<open>n\<close> bytes of the literal, whose
  last byte is its NUL. The handler asks for 51 and 31 bytes, one more than the texts
  are long.
\<close>

definition write_bytes :: "string \<Rightarrow> nat \<Rightarrow> string" where
  "write_bytes message n = take n (message @ [nul])"

text \<open>
  The handler reads and writes the global \<^verbatim>\<open>foreground_mode_flag\<close> only; it returns the
  bytes it writes to standard output and the new value of the flag.
\<close>

definition handle_SIGTSTP :: "int \<Rightarrow> string \<times> int" where
  "handle_SIGTSTP foreground_mode_flag =
     (if foreground_mode_flag = 0 then (write_bytes msg_entering 51, 1)
      else (write_bytes msg_exiting 31, 0))"

subsection \<open>Placeholder expansion (lines 53-81)\<close>

text \<open>
  The first loop counts the placeholders: at a match \<^verbatim>\<open>i\<close> is advanced twice (once in
  the body, once by the loop), otherwise once.
\<close>

fun count_loop :: "string \<Rightarrow> int" where
  "count_loop [] = 0"
| "count_loop (c # cs) =
     (if starts_with_dd (c # cs) then 1 + count_loop (drop 1 cs) else count_loop cs)"

text \<open>
  The second loop copies: at a match \<^verbatim>\<open>strcpy\<close> appends the digits and \<^verbatim>\<open>str\<close> moves two
  characters on, otherwise one character is copied. \<open>replacement\<close> is what has been
  written so far, so the C index \<^verbatim>\<open>i\<close> is its length.
\<close>

fun copy_loop :: "string \<Rightarrow> string \<Rightarrow> string \<Rightarrow> string" where
  "copy_loop buffer [] replacement = replacement"
| "copy_loop buffer (c # cs) replacement =
     (if starts_with_dd (c # cs) then copy_loop buffer (drop 1 cs) (replacement @ buffer)
      else copy_loop buffer cs (replacement @ [c]))"

text \<open>
  The block \<^verbatim>\<open>malloc\<close> returns holds \<^verbatim>\<open>i + counter * (buffer_length - 2) + 1\<close> bytes,
  where \<^verbatim>\<open>i\<close> is the length of the input after the first loop. The result and its NUL
  must fit, or the copy loop wrote past the block.
\<close>

definition malloc_size :: "string \<Rightarrow> string \<Rightarrow> int" where
  "malloc_size buffer str = int (length str) + count_loop str * (int (length buffer) - 2) + 1"

definition replace_double_dollarsigns :: "string \<Rightarrow> int \<Rightarrow> fault + string" where
  "replace_double_dollarsigns str pid =
     (let buffer = sprintf_d pid;
          replacement = copy_loop buffer str []
      in if int (length replacement) + 1 \<le> malloc_size buffer str then Inr replacement
         else Inl BufferOverflow)"

subsection \<open>Tokenizing: \<^verbatim>\<open>strtok\<close> and \<^verbatim>\<open>sscanf\<close>\<close>

text \<open>
  \<^verbatim>\<open>strtok(user_input, " ")\<close> followed by \<^verbatim>\<open>strtok(NULL, " ")\<close> until it returns NULL
  yields the maximal runs of characters other than the space, in order. \<open>cur\<close> is the
  token being read.
\<close>

fun split_tokens :: "string \<Rightarrow> string \<Rightarrow> string list" where
  "split_tokens cur [] = (if cur = [] then [] else [cur])"
| "split_tokens cur (c # cs) =
     (if c = space then (if cur = [] then split_tokens [] cs else cur # split_tokens [] cs)
      else split_tokens (cur @ [c]) cs)"

definition strtok_all :: "string \<Rightarrow> string list" where
  "strtok_all user_input = split_tokens [] user_input"

text \<open>
  \<^verbatim>\<open>sscanf(token, "%s", buf)\<close> skips leading white space and copies the characters up
  to the next white space. When the token holds white space only, nothing is converted
  and the buffer keeps what it held (\<open>Inr None\<close>). A word of \<open>cap\<close> characters or
  more does not fit a buffer of \<open>cap\<close> bytes with its NUL.
\<close>

definition scan_word :: "string \<Rightarrow> string" where
  "scan_word token = takeWhile (\<lambda>c. \<not> isspace c) (dropWhile isspace token)"

definition sscanf_s :: "string \<Rightarrow> nat \<Rightarrow> fault + string option" where
  "sscanf_s token cap =
     (let w = scan_word token
      in if w = [] then Inr None
         else if length w < cap then Inr (Some w)
         else Inl BufferOverflow)"

subsection \<open>The state of the shell process\<close>

text \<open>An entry of the array \<^verbatim>\<open>char* command_line[2048]\<close>.\<close>

datatype cell = Uninit | Null | Ptr string

datatype disposition = SIG_IGN | SIG_DFL

text \<open>
  The global flag, the variables of \<^verbatim>\<open>main\<close> and the disposition of SIGINT. The buffer
  \<^verbatim>\<open>str\<close> is \<open>None\<close> until the first \<^verbatim>\<open>sscanf\<close> into it succeeds; \<^verbatim>\<open>str\<close> and
  \<^verbatim>\<open>command_line\<close> are declared outside the loop and keep their contents from one
  command line to the next. \<^verbatim>\<open>input_file\<close>, \<^verbatim>\<open>output_file\<close> and \<^verbatim>\<open>index\<close> are
  initialised afresh by every iteration.
\<close>

record shell_state =
  foreground_mode_flag :: int
  child_exit_status :: int
  background_mode_flag :: int
  spawnPid :: int
  str :: "string option"
  command_line :: "int \<Rightarrow> cell"
  input_file :: string
  output_file :: string
  index :: int
  sigint :: disposition

text \<open>The state when the loop is entered (lines 22, 89-108).\<close>

definition initial_state :: shell_state where
  "initial_state =
     \<lparr> foreground_mode_flag = 0, child_exit_status = - 5, background_mode_flag = 0,
       spawnPid = - 5, str = None, command_line = (\<lambda>_. Uninit),
       input_file = [], output_file = [], index = 0, sigint = SIG_IGN \<rparr>"

text \<open>
  What the operating system answers during one iteration: the process identifier, the
  value \<^verbatim>\<open>fork\<close> returns in the process modelled (\<open>- 1\<close> on failure, \<open>0\<close> in the child,
  the child's identifier in the parent), the status the blocking \<^verbatim>\<open>waitpid\<close> stores
  (\<open>None\<close> when it fails and stores nothing), the successive answers (return value,
  status) of \<^verbatim>\<open>waitpid(-1, .., WNOHANG)\<close> (0 once the list is used up), and whether
  \<^verbatim>\<open>open\<close>, \<^verbatim>\<open>dup2\<close> and \<^verbatim>\<open>execvp\<close> succeed in the child.
\<close>

record os =
  getpid :: int
  fork :: int
  waitpid_fg :: "int option"
  waitpid_nohang :: "(int \<times> int) list"
  open_in :: bool
  dup2_in :: bool
  open_out :: bool
  dup2_out :: bool
  execvp :: bool

datatype event =
    Prompt                        \<comment> \<open>\<^verbatim>\<open>printf(": ")\<close>\<close>
  | Write string                  \<comment> \<open>the handler's \<^verbatim>\<open>write\<close> to standard output\<close>
  | Sys_chdir_home                \<comment> \<open>\<^verbatim>\<open>chdir(getenv("HOME"))\<close>\<close>
  | Sys_chdir "string option"     \<comment> \<open>\<^verbatim>\<open>chdir(command_line[1])\<close>, \<open>None\<close> for a null pointer\<close>
  | Exit_value int                \<comment> \<open>\<^verbatim>\<open>printf("exit value %i\n", ..)\<close>\<close>
  | Terminated_by_signal int      \<comment> \<open>\<^verbatim>\<open>printf("terminated by signal %i\n", ..)\<close>\<close>
  | Sys_fork
  | Perror_fork                   \<comment> \<open>\<^verbatim>\<open>perror("fork() failed!\n")\<close>\<close>
  | Sys_waitpid int               \<comment> \<open>the blocking \<^verbatim>\<open>waitpid(spawnPid, .., 0)\<close>\<close>
  | Background_pid int            \<comment> \<open>\<^verbatim>\<open>printf("background pid is %d\n", ..)\<close>\<close>
  | Sys_waitpid_nohang            \<comment> \<open>\<^verbatim>\<open>waitpid(-1, .., WNOHANG)\<close>\<close>
  | Background_done int           \<comment> \<open>\<^verbatim>\<open>printf("background pid %i is done: ", ..)\<close>\<close>
  | Sys_sigaction_SIGINT disposition
  | Sys_open_read string
  | No_such_file string           \<comment> \<open>\<^verbatim>\<open>printf("%s: no such file or directory\n", ..)\<close>\<close>
  | Sys_open_write string
  | Cannot_open string            \<comment> \<open>\<^verbatim>\<open>printf("cannot open %s\n", ..)\<close>\<close>
  | Sys_dup2 nat
  | Perror_dup2
  | Sys_close                     \<comment> \<open>\<^verbatim>\<open>close\<close> of the descriptor just duplicated\<close>
  | Sys_execvp "string list"
  | Invalid_command string        \<comment> \<open>\<^verbatim>\<open>printf("%s is an invalid command\n", ..)\<close>\<close>

text \<open>
  How an iteration ends for the process modelled: back at the top of the loop, the
  process has exited with a code, it has run into undefined behaviour, or (in a child)
  \<^verbatim>\<open>execvp\<close> has replaced it by the program, which inherits the disposition of SIGINT.
\<close>

datatype outcome =
    Continue shell_state
  | Exited int
  | Crashed fault
  | Execed disposition "string list"

subsection \<open>Reading and parsing a line (lines 113-158)\<close>

text \<open>
  \<^verbatim>\<open>strcpy(user_input, "\n"); fgets(user_input, 2048, stdin)\<close>: at the end of the input
  \<^verbatim>\<open>fgets\<close> stores nothing and the buffer keeps the single newline.
\<close>

definition fgets :: "string option \<Rightarrow> string" where
  "fgets line = (case line of None \<Rightarrow> [newline] | Some l \<Rightarrow> l)"

text \<open>\<^verbatim>\<open>command_line[index++] = strdup(w)\<close>; the array has 2048 entries.\<close>

definition store_word :: "string \<Rightarrow> shell_state \<Rightarrow> fault + shell_state" where
  "store_word w s =
     (if 0 \<le> index s \<and> index s < 2048
      then Inr (s\<lparr> command_line := (command_line s)(index s := Ptr w), index := index s + 1 \<rparr>)
      else Inl BufferOverflow)"

text \<open>
  The \<^verbatim>\<open>while (token != NULL)\<close> loop over the tokens \<^verbatim>\<open>strtok\<close> returns. After \<^verbatim>\<open><\<close>
  or \<^verbatim>\<open>>\<close> the next token goes to \<^verbatim>\<open>sscanf\<close> unchecked: when there is none, that is a
  null pointer. In the last two branches \<^verbatim>\<open>str\<close> is duplicated whether or not
  \<^verbatim>\<open>sscanf\<close> wrote it.
\<close>

fun parse_loop :: "int \<Rightarrow> string list \<Rightarrow> shell_state \<Rightarrow> fault + shell_state" where
  "parse_loop pid [] s = Inr s"
| "parse_loop pid (token # rest) s =
     (if token = ''<'' then
        (case rest of
           [] \<Rightarrow> Inl NullDeref
         | path # rest' \<Rightarrow>
             (case sscanf_s path 100 of
                Inl f \<Rightarrow> Inl f
              | Inr None \<Rightarrow> parse_loop pid rest' s
              | Inr (Some w) \<Rightarrow> parse_loop pid rest' (s\<lparr> input_file := w \<rparr>)))
      else if token = ''>'' then
        (case rest of
           [] \<Rightarrow> Inl NullDeref
         | path # rest' \<Rightarrow>
             (case sscanf_s path 100 of
                Inl f \<Rightarrow> Inl f
              | Inr None \<Rightarrow> parse_loop pid rest' s
              | Inr (Some w) \<Rightarrow> parse_loop pid rest' (s\<lparr> output_file := w \<rparr>)))
      else if strstr_dd token then
        (case sscanf_s token 512 of
           Inl f \<Rightarrow> Inl f
         | Inr r \<Rightarrow>
             (case (case r of None \<Rightarrow> str s | Some w \<Rightarrow> Some w) of
                None \<Rightarrow> Inl UninitRead
              | Some w \<Rightarrow>
                  (case replace_double_dollarsigns w pid of
                     Inl f \<Rightarrow> Inl f
                   | Inr e \<Rightarrow>
                       (case store_word e (s\<lparr> str := Some w \<rparr>) of
                          Inl f \<Rightarrow> Inl f
                        | Inr s' \<Rightarrow> parse_loop pid rest s'))))
      else
        (case sscanf_s token 512 of
           Inl f \<Rightarrow> Inl f
         | Inr r \<Rightarrow>
             (case (case r of None \<Rightarrow> str s | Some w \<Rightarrow> Some w) of
                None \<Rightarrow> Inl UninitRead
              | Some w \<Rightarrow>
                  (case store_word w (s\<lparr> str := Some w \<rparr>) of
                     Inl f \<Rightarrow> Inl f
                   | Inr s' \<Rightarrow> parse_loop pid rest s'))))"

text \<open>\<^verbatim>\<open>if (user_input[0] == '\n') command_line[0] = NULL;\<close>\<close>

definition blank_check :: "string \<Rightarrow> shell_state \<Rightarrow> shell_state" where
  "blank_check user_input s =
     (if take 1 user_input = [newline] then s\<lparr> command_line := (command_line s)(0 := Null) \<rparr>
      else s)"

text \<open>
  The variables one iteration initialises, and the tokenizer as a whole: from the line
  \<^verbatim>\<open>fgets\<close> delivers to the state the guard of line 161 looks at.
\<close>

definition fresh_locals :: "shell_state \<Rightarrow> shell_state" where
  "fresh_locals s = s\<lparr> input_file := [], output_file := [], index := 0 \<rparr>"

definition tokenize :: "int \<Rightarrow> string option \<Rightarrow> shell_state \<Rightarrow> fault + shell_state" where
  "tokenize pid line s =
     (case parse_loop pid (strtok_all (fgets line)) (fresh_locals s) of
        Inl f \<Rightarrow> Inl f
      | Inr s' \<Rightarrow> Inr (blank_check (fgets line) s'))"

text \<open>\<^verbatim>\<open>(command_line[0] != NULL) && (command_line[0][0] != '#')\<close>\<close>

definition is_command :: "shell_state \<Rightarrow> fault + bool" where
  "is_command s =
     (case command_line s 0 of
        Uninit \<Rightarrow> Inl UninitRead
      | Null \<Rightarrow> Inr False
      | Ptr w \<Rightarrow> Inr (take 1 w \<noteq> ''#''))"

subsection \<open>The background marker (lines 162-170)\<close>

definition strip_background :: "shell_state \<Rightarrow> fault + shell_state" where
  "strip_background s =
     (if index s - 1 < 0 \<or> 2048 \<le> index s - 1 then Inl OutOfBounds
      else case command_line s (index s - 1) of
        Uninit \<Rightarrow> Inl UninitRead
      | Null \<Rightarrow> Inl NullDeref
      | Ptr w \<Rightarrow>
          if w = ''&''
          then Inr (s\<lparr> command_line := (command_line s)(index s - 1 := Null),
                       background_mode_flag := 1 \<rparr>)
          else if index s < 2048
          then Inr (s\<lparr> command_line := (command_line s)(index s := Null),
                       index := index s + 1, background_mode_flag := 0 \<rparr>)
          else Inl BufferOverflow)"

subsection \<open>Wait statuses\<close>

text \<open>
  The macros of \<^verbatim>\<open><sys/wait.h>\<close> are the platform's, not the repository's; these are
  the Linux definitions. A status is the \<^verbatim>\<open>int\<close> that \<^verbatim>\<open>waitpid\<close> stores.
\<close>

definition WTERMSIG :: "int \<Rightarrow> int" where
  "WTERMSIG status = status AND 0x7f"

definition WIFEXITED :: "int \<Rightarrow> bool" where
  "WIFEXITED status = (WTERMSIG status = 0)"

definition WEXITSTATUS :: "int \<Rightarrow> int" where
  "WEXITSTATUS status = drop_bit 8 (status AND 0xff00)"

text \<open>The two \<^verbatim>\<open>printf\<close> calls of lines 190-196 and again of lines 266-273.\<close>

definition print_status :: "int \<Rightarrow> event" where
  "print_status status =
     (if WIFEXITED status then Exit_value (WEXITSTATUS status)
      else Terminated_by_signal status)"

subsection \<open>The child (lines 207-249)\<close>

text \<open>\<^verbatim>\<open>execvp\<close> reads the argument vector from \<^verbatim>\<open>command_line[0]\<close> up to the first NULL.\<close>

fun read_argv :: "(int \<Rightarrow> cell) \<Rightarrow> nat \<Rightarrow> int \<Rightarrow> fault + string list" where
  "read_argv cl 0 i = Inl OutOfBounds"
| "read_argv cl (Suc n) i =
     (case cl i of
        Uninit \<Rightarrow> Inl UninitRead
      | Null \<Rightarrow> Inr []
      | Ptr w \<Rightarrow> (case read_argv cl n (i + 1) of Inl f \<Rightarrow> Inl f | Inr ws \<Rightarrow> Inr (w # ws)))"

definition child_sigint :: "shell_state \<Rightarrow> event list \<times> shell_state" where
  "child_sigint s =
     (if background_mode_flag s = 0
      then ([Sys_sigaction_SIGINT SIG_DFL], s\<lparr> sigint := SIG_DFL \<rparr>)
      else ([], s))"

text \<open>The two redirections; \<open>False\<close> stands for \<^verbatim>\<open>_exit(1)\<close>.\<close>

definition child_redirect_in :: "os \<Rightarrow> shell_state \<Rightarrow> event list \<times> bool" where
  "child_redirect_in os s =
     (if input_file s \<noteq> [] then
        (if \<not> open_in os then ([Sys_open_read (input_file s), No_such_file (input_file s)], False)
         else if \<not> dup2_in os then ([Sys_open_read (input_file s), Sys_dup2 0, Perror_dup2], False)
         else ([Sys_open_read (input_file s), Sys_dup2 0, Sys_close], True))
      else ([], True))"

definition child_redirect_out :: "os \<Rightarrow> shell_state \<Rightarrow> event list \<times> bool" where
  "child_redirect_out os s =
     (if output_file s \<noteq> [] then
        (if \<not> open_out os then ([Sys_open_write (output_file s), Cannot_open (output_file s)], False)
         else if \<not> dup2_out os then ([Sys_open_write (output_file s), Sys_dup2 1, Perror_dup2], False)
         else ([Sys_open_write (output_file s), Sys_dup2 1, Sys_close], True))
      else ([], True))"

definition child :: "os \<Rightarrow> string \<Rightarrow> shell_state \<Rightarrow> event list \<times> outcome" where
  "child os c s =
     (let (e1, s1) = child_sigint s;
          (e2, ok2) = child_redirect_in os s1
      in if \<not> ok2 then (e1 @ e2, Exited 1)
         else
           let (e3, ok3) = child_redirect_out os s1
           in if \<not> ok3 then (e1 @ e2 @ e3, Exited 1)
              else
                (case read_argv (command_line s1) 2048 0 of
                   Inl f \<Rightarrow> (e1 @ e2 @ e3, Crashed f)
                 | Inr argv \<Rightarrow>
                     if execvp os then (e1 @ e2 @ e3 @ [Sys_execvp argv], Execed (sigint s1) argv)
                     else (e1 @ e2 @ e3 @ [Sys_execvp argv, Invalid_command c], Exited 1)))"

subsection \<open>Dispatch (lines 172-261)\<close>

text \<open>
  \<^verbatim>\<open>switch (spawnPid)\<close> after \<^verbatim>\<open>fork\<close>: \<open>- 1\<close> is the failure, \<open>0\<close> is the child, anything
  else the parent, which waits or reports the background process.
\<close>

definition launch :: "os \<Rightarrow> string \<Rightarrow> shell_state \<Rightarrow> event list \<times> outcome" where
  "launch os c s =
     (let s1 = s\<lparr> spawnPid := fork os \<rparr>
      in if fork os = - 1 then ([Sys_fork, Perror_fork], Exited 1)
         else if fork os = 0 then (Sys_fork # fst (child os c s1), snd (child os c s1))
         else if foreground_mode_flag s = 1 \<or> background_mode_flag s = 0 then
           ([Sys_fork, Sys_waitpid (fork os)],
            Continue (s1\<lparr> child_exit_status :=
               (case waitpid_fg os of None \<Rightarrow> child_exit_status s | Some v \<Rightarrow> v) \<rparr>))
         else if background_mode_flag s = 1 then
           ([Sys_fork, Background_pid (fork os)], Continue s1)
         else ([Sys_fork], Continue s1))"

definition dispatch :: "os \<Rightarrow> shell_state \<Rightarrow> event list \<times> outcome" where
  "dispatch os s =
     (case command_line s 0 of
        Uninit \<Rightarrow> ([], Crashed UninitRead)
      | Null \<Rightarrow> ([], Crashed NullDeref)
      | Ptr c \<Rightarrow>
          if c = ''exit'' then ([], Exited 0)
          else if c = ''cd'' then
            (if index s - 1 = 1 then ([Sys_chdir_home], Continue s)
             else case command_line s 1 of
                    Uninit \<Rightarrow> ([], Crashed UninitRead)
                  | Null \<Rightarrow> ([Sys_chdir None], Continue s)
                  | Ptr d \<Rightarrow> ([Sys_chdir (Some d)], Continue s))
          else if c = ''status'' then ([print_status (child_exit_status s)], Continue s)
          else launch os c s)"

subsection \<open>Collecting finished children (lines 262-275)\<close>

text \<open>
  \<open>answers\<close> are the successive results of \<^verbatim>\<open>waitpid(-1, &child_exit_status, WNOHANG)\<close>.
  A positive result has stored the status of the child collected; a result that is not
  positive has stored nothing and ends the loop.
\<close>

fun reaper_loop :: "(int \<times> int) list \<Rightarrow> shell_state \<Rightarrow> event list \<times> shell_state" where
  "reaper_loop [] s = ([Sys_waitpid_nohang], s\<lparr> spawnPid := 0 \<rparr>)"
| "reaper_loop ((p, status) # later) s =
     (if p > 0 then
        (Sys_waitpid_nohang # Background_done p # print_status status
           # fst (reaper_loop later (s\<lparr> spawnPid := p, child_exit_status := status \<rparr>)),
         snd (reaper_loop later (s\<lparr> spawnPid := p, child_exit_status := status \<rparr>)))
      else ([Sys_waitpid_nohang], s\<lparr> spawnPid := p \<rparr>))"

subsection \<open>One iteration of the loop (lines 111-277) and a whole session\<close>

definition shell_iteration :: "os \<Rightarrow> string option \<Rightarrow> shell_state \<Rightarrow> event list \<times> outcome" where
  "shell_iteration os line s =
     (case tokenize (getpid os) line s of
        Inl f \<Rightarrow> ([Prompt], Crashed f)
      | Inr s1 \<Rightarrow>
          (case is_command s1 of
             Inl f \<Rightarrow> ([Prompt], Crashed f)
           | Inr False \<Rightarrow> ([Prompt], Continue s1)
           | Inr True \<Rightarrow>
               (case strip_background s1 of
                  Inl f \<Rightarrow> ([Prompt], Crashed f)
                | Inr s2 \<Rightarrow>
                    (case dispatch os s2 of
                       (evs, Continue s3) \<Rightarrow>
                         (Prompt # evs @ fst (reaper_loop (waitpid_nohang os) s3),
                          Continue (snd (reaper_loop (waitpid_nohang os) s3)))
                     | (evs, out) \<Rightarrow> (Prompt # evs, out)))))"

text \<open>
  A session: command lines, each with what the operating system answers while it is
  processed, and SIGTSTP signals delivered between two iterations.
\<close>

datatype input = Line os "string option" | SIGTSTP

definition deliver_SIGTSTP :: "shell_state \<Rightarrow> shell_state" where
  "deliver_SIGTSTP s = s\<lparr> foreground_mode_flag := snd (handle_SIGTSTP (foreground_mode_flag s)) \<rparr>"

fun run :: "input list \<Rightarrow> shell_state \<Rightarrow> event list \<times> outcome" where
  "run [] s = ([], Continue s)"
| "run (SIGTSTP # later) s =
     (Write (fst (handle_SIGTSTP (foreground_mode_flag s))) # fst (run later (deliver_SIGTSTP s)),
      snd (run later (deliver_SIGTSTP s)))"
| "run (Line os line # later) s =
     (case shell_iteration os line s of
        (evs, Continue s') \<Rightarrow> (evs @ fst (run later s'), snd (run later s'))
      | (evs, out) \<Rightarrow> (evs, out))"

section \<open>Vocabulary of the statements\<close>

subsection \<open>An oracle for examples, and observations\<close>

text \<open>Every call succeeds, the child gets the identifier 77, and no child is waiting.\<close>

definition quiet_os :: os where
  "quiet_os =
     \<lparr> getpid = 1234, fork = 77, waitpid_fg = Some 0, waitpid_nohang = [],
       open_in = True, dup2_in = True, open_out = True, dup2_out = True, execvp = True \<rparr>"

text \<open>
  What an outcome shows of the shell: when the loop goes on, whether foreground-only
  mode is on and the status the \<^verbatim>\<open>status\<close> built-in would print next.
\<close>

datatype observation =
    Goes_on bool int
  | Exits int
  | Crashes fault
  | Execs disposition "string list"

fun observe :: "outcome \<Rightarrow> observation" where
  "observe (Continue s) = Goes_on (foreground_mode_flag s = 1) (child_exit_status s)"
| "observe (Exited n) = Exits n"
| "observe (Crashed e) = Crashes e"
| "observe (Execed d argv) = Execs d argv"

fun continues :: "outcome \<Rightarrow> bool" where
  "continues (Continue s) = True"
| "continues (Exited n) = False"
| "continues (Crashed e) = False"
| "continues (Execed d argv) = False"

subsection \<open>Placeholders and the pieces between them\<close>

fun join :: "string \<Rightarrow> string list \<Rightarrow> string" where
  "join sep [] = []"
| "join sep [s] = s"
| "join sep (s # t # r) = s @ sep @ join sep (t # r)"

text \<open>
  The pieces of a string between the placeholders a scan from the left finds: no piece
  holds a placeholder, and none but the last ends in a dollar sign that would pair with
  the one after it.
\<close>

fun leftmost_segments :: "string list \<Rightarrow> bool" where
  "leftmost_segments [] = False"
| "leftmost_segments [s] = (\<not> strstr_dd s)"
| "leftmost_segments (s # t # r) = (\<not> strstr_dd (s @ [dollar]) \<and> leftmost_segments (t # r))"

subsection \<open>Plain command lines\<close>

text \<open>
  A plain word: not empty, free of white space and of placeholders, not a redirection
  operator, and short enough for the buffer \<^verbatim>\<open>str\<close>. A plain command is a list of such
  words that does not end in \<open>&\<close> and is not a comment; its text is the words
  separated by single spaces, \<open>&\<close> appended when the marker is wanted, and a newline.
\<close>

definition simple_word :: "string \<Rightarrow> bool" where
  "simple_word w =
     (w \<noteq> [] \<and> list_all (\<lambda>c. \<not> isspace c) w \<and> \<not> strstr_dd w
      \<and> w \<noteq> ''<'' \<and> w \<noteq> ''>'' \<and> length w < 512)"

definition with_marker :: "string list \<Rightarrow> bool \<Rightarrow> string list" where
  "with_marker cmd amp = (if amp then cmd @ [''&''] else cmd)"

definition command_text :: "string list \<Rightarrow> bool \<Rightarrow> string" where
  "command_text cmd amp = join [space] (with_marker cmd amp) @ [newline]"

definition command_words :: "string list \<Rightarrow> bool" where
  "command_words cmd =
     (cmd \<noteq> [] \<and> list_all simple_word cmd \<and> last cmd \<noteq> ''&''
      \<and> take 1 (hd cmd) \<noteq> ''#'' \<and> length cmd < 2047)"

definition builtin :: "string \<Rightarrow> bool" where
  "builtin c = (c = ''exit'' \<or> c = ''cd'' \<or> c = ''status'')"

text \<open>
  The array after the words \<open>ws\<close> have been stored from index \<open>base\<close> on, and the
  state after the parsing loop has stored them.
\<close>

definition stored_cells :: "string list \<Rightarrow> int \<Rightarrow> (int \<Rightarrow> cell) \<Rightarrow> int \<Rightarrow> cell" where
  "stored_cells ws base cl =
     (\<lambda>i. if base \<le> i \<and> i < base + int (length ws) then Ptr (ws ! nat (i - base)) else cl i)"

definition stored :: "string list \<Rightarrow> shell_state \<Rightarrow> shell_state" where
  "stored ws s =
     s\<lparr> str := (if ws = [] then str s else Some (last ws)),
        index := index s + int (length ws),
        command_line := stored_cells ws (index s) (command_line s) \<rparr>"

subsection \<open>Lines by the words they store\<close>

text \<open>
  Whatever the spacing, the placeholders and the redirections of a line, what dispatch
  sees is the words the parsing loop has stored: \<open>holds_words s ws\<close> says that
  \<^verbatim>\<open>command_line[0 .. index - 1]\<close> are the words \<open>ws\<close>. A command with its marker
  \<open>amp\<close> is a list of words that is not empty, is not a comment, fits the array and,
  when there is no marker, does not end in \<open>&\<close>. \<open>stripped\<close> is the state lines
  162-170 leave: NULL after the last word of the command, the flag set from the marker.
\<close>

definition holds_words :: "shell_state \<Rightarrow> string list \<Rightarrow> bool" where
  "holds_words s ws =
     (index s = int (length ws)
      \<and> list_all (\<lambda>k. command_line s (int k) = Ptr (ws ! k)) [0..<length ws])"

definition marked_command :: "string list \<Rightarrow> bool \<Rightarrow> bool" where
  "marked_command cmd amp =
     (cmd \<noteq> [] \<and> (amp \<or> last cmd \<noteq> ''&'') \<and> take 1 (hd cmd) \<noteq> ''#'' \<and> length cmd < 2048)"

definition stripped :: "string list \<Rightarrow> bool \<Rightarrow> shell_state \<Rightarrow> shell_state" where
  "stripped cmd amp s =
     s\<lparr> command_line := (command_line s)(int (length cmd) := Null),
        index := int (length cmd) + 1,
        background_mode_flag := (if amp then 1 else 0) \<rparr>"

text \<open>What a built-in does: the calls it makes and the line it prints.\<close>

definition builtin_calls :: "string list \<Rightarrow> int \<Rightarrow> event list" where
  "builtin_calls cmd status =
     (if hd cmd = ''cd''
      then [if length cmd = 1 then Sys_chdir_home else Sys_chdir (Some (cmd ! 1))]
      else if hd cmd = ''status'' then [print_status status]
      else [])"

text \<open>The variables that tokenizing a line never writes.\<close>

definition untouched :: "shell_state \<Rightarrow> shell_state \<Rightarrow> bool" where
  "untouched s s' =
     (foreground_mode_flag s' = foreground_mode_flag s
      \<and> child_exit_status s' = child_exit_status s
      \<and> background_mode_flag s' = background_mode_flag s
      \<and> spawnPid s' = spawnPid s \<and> sigint s' = sigint s)"

section \<open>The SIGTSTP toggle\<close>

lemma deliver_SIGTSTP_flag:
  "foreground_mode_flag (deliver_SIGTSTP s) = (if foreground_mode_flag s = 0 then 1 else 0)"
  by (simp add: deliver_SIGTSTP_def handle_SIGTSTP_def)

lemma deliver_SIGTSTP_twice:
  assumes "foreground_mode_flag s \<in> {0, 1}"
  shows "deliver_SIGTSTP (deliver_SIGTSTP s) = s"
  using assms by (auto simp: deliver_SIGTSTP_def handle_SIGTSTP_def)

lemma deliver_SIGTSTP_even:
  assumes "foreground_mode_flag s \<in> {0, 1}"
  shows "(deliver_SIGTSTP ^^ (2 * n)) s = s"
proof (induction n)
  case 0
  show ?case by simp
next
  case (Suc n)
  have "(deliver_SIGTSTP ^^ (2 * Suc n)) s
        = deliver_SIGTSTP (deliver_SIGTSTP ((deliver_SIGTSTP ^^ (2 * n)) s))"
    by simp
  also have "\<dots> = deliver_SIGTSTP (deliver_SIGTSTP s)"
    by (simp only: Suc.IH)
  also have "\<dots> = s"
    by (rule deliver_SIGTSTP_twice [OF assms])
  finally show ?case .
qed

lemma reachable_flag_two_states:
  "foreground_mode_flag ((deliver_SIGTSTP ^^ k) initial_state) \<in> {0, 1}"
proof (induction k)
  case 0
  show ?case by (simp add: initial_state_def)
next
  case (Suc k)
  show ?case by (simp add: deliver_SIGTSTP_flag)
qed

text \<open>
  Claim C8. The handler toggles the flag between two states, starting from 0 (normal):
  each delivery flips it, every state reached from the initial one is 0 or 1, and in
  either state an even number of deliveries gives back the very same state of the
  shell, so the next command line (with or without \<open>&\<close>) is processed identically.
\<close>

theorem SIGTSTP_even_deliveries_restore:
  "foreground_mode_flag s \<in> {0, 1} \<Longrightarrow>
     foreground_mode_flag (deliver_SIGTSTP s) = 1 - foreground_mode_flag s
     \<and> (deliver_SIGTSTP ^^ (2 * n)) s = s
     \<and> shell_iteration os line ((deliver_SIGTSTP ^^ (2 * n)) s) = shell_iteration os line s
     \<and> foreground_mode_flag initial_state = 0
     \<and> foreground_mode_flag ((deliver_SIGTSTP ^^ k) initial_state) \<in> {0, 1}"
proof -
  assume two: "foreground_mode_flag s \<in> {0, 1}"
  have flip: "foreground_mode_flag (deliver_SIGTSTP s) = 1 - foreground_mode_flag s"
    using two by (auto simp: deliver_SIGTSTP_flag)
  have even: "(deliver_SIGTSTP ^^ (2 * n)) s = s"
    by (rule deliver_SIGTSTP_even [OF two])
  have start: "foreground_mode_flag initial_state = 0"
    by (simp add: initial_state_def)
  show ?thesis
    using flip start reachable_flag_two_states [of k] by (simp only: even simp_thms)
qed

theorem SIGTSTP_even_deliveries_restore_witness:
  "foreground_mode_flag (deliver_SIGTSTP initial_state) \<in> {0, 1}
   \<and> foreground_mode_flag (deliver_SIGTSTP (deliver_SIGTSTP initial_state)) = 0
   \<and> (deliver_SIGTSTP ^^ (2 * 3)) (deliver_SIGTSTP initial_state) = deliver_SIGTSTP initial_state
   \<and> shell_iteration quiet_os (Some (''sleep 5 &'' @ [newline]))
        ((deliver_SIGTSTP ^^ (2 * 3)) (deliver_SIGTSTP initial_state))
      = shell_iteration quiet_os (Some (''sleep 5 &'' @ [newline])) (deliver_SIGTSTP initial_state)"
proof -
  have two: "foreground_mode_flag (deliver_SIGTSTP initial_state) \<in> {0, 1}"
    by (simp add: deliver_SIGTSTP_flag)
  have one: "foreground_mode_flag (deliver_SIGTSTP initial_state) = 1"
    by (simp add: deliver_SIGTSTP_flag initial_state_def)
  show ?thesis
    using SIGTSTP_even_deliveries_restore
      [OF two, of 3 quiet_os "Some (''sleep 5 &'' @ [newline])" 0]
    by (simp add: one)
qed

section \<open>Placeholder expansion\<close>

declare copy_loop.simps(2) [simp del] count_loop.simps(2) [simp del]

lemma starts_with_dd_iff: "starts_with_dd s = (\<exists>t. s = dollar # dollar # t)"
proof (cases s)
  case Nil
  then show ?thesis by (simp add: starts_with_dd_def)
next
  case (Cons c cs)
  then show ?thesis by (cases cs) (auto simp: starts_with_dd_def)
qed

lemma copy_loop_acc: "copy_loop b s rep = rep @ copy_loop b s []"
proof (induction s arbitrary: rep rule: length_induct)
  case (1 s)
  show ?case
  proof (cases s)
    case Nil
    then show ?thesis by simp
  next
    case (Cons c cs)
    have shorter: "length (drop 1 cs) < length s" "length cs < length s"
      using Cons by simp_all
    show ?thesis
    proof (cases "starts_with_dd (c # cs)")
      case True
      have "copy_loop b s rep = (rep @ b) @ copy_loop b (drop 1 cs) []"
        using True Cons 1 [rule_format, OF shorter(1), of "rep @ b"]
        by (simp add: copy_loop.simps(2))
      moreover have "copy_loop b s [] = b @ copy_loop b (drop 1 cs) []"
        using True Cons 1 [rule_format, OF shorter(1), of b]
        by (simp add: copy_loop.simps(2))
      ultimately show ?thesis by simp
    next
      case False
      have "copy_loop b s rep = (rep @ [c]) @ copy_loop b cs []"
        using False Cons 1 [rule_format, OF shorter(2), of "rep @ [c]"]
        by (simp add: copy_loop.simps(2))
      moreover have "copy_loop b s [] = [c] @ copy_loop b cs []"
        using False Cons 1 [rule_format, OF shorter(2), of "[c]"]
        by (simp add: copy_loop.simps(2))
      ultimately show ?thesis by simp
    qed
  qed
qed

lemma copy_loop_match:
  "copy_loop b (dollar # dollar # t) [] = b @ copy_loop b t []"
proof -
  have "starts_with_dd (dollar # dollar # t)"
    by (simp add: starts_with_dd_iff)
  then have "copy_loop b (dollar # dollar # t) [] = copy_loop b t b"
    by (simp add: copy_loop.simps(2))
  then show ?thesis using copy_loop_acc [of b t b] by simp
qed

lemma copy_loop_no_match:
  assumes "\<not> starts_with_dd (c # cs)"
  shows "copy_loop b (c # cs) [] = c # copy_loop b cs []"
proof -
  have "copy_loop b (c # cs) [] = copy_loop b cs [c]"
    using assms by (simp add: copy_loop.simps(2))
  then show ?thesis using copy_loop_acc [of b cs "[c]"] by simp
qed

lemma copy_loop_plain: "\<not> strstr_dd s \<Longrightarrow> copy_loop b s [] = s"
  by (induction s) (simp_all add: copy_loop_no_match)

lemma starts_with_dd_segment:
  assumes "\<not> strstr_dd ((c # cs) @ [dollar])"
  shows "\<not> starts_with_dd (c # cs @ dollar # dollar # t)"
proof (cases cs)
  case Nil
  then show ?thesis using assms by (simp add: starts_with_dd_iff)
next
  case (Cons d ds)
  then show ?thesis using assms by (simp add: starts_with_dd_iff)
qed

lemma copy_loop_segment:
  "\<not> strstr_dd (s @ [dollar]) \<Longrightarrow>
     copy_loop b (s @ dollar # dollar # t) [] = s @ b @ copy_loop b t []"
proof (induction s)
  case Nil
  show ?case by (simp add: copy_loop_match)
next
  case (Cons c cs)
  have "\<not> starts_with_dd (c # cs @ dollar # dollar # t)"
    by (rule starts_with_dd_segment [OF Cons.prems])
  then have "copy_loop b ((c # cs) @ dollar # dollar # t) []
             = c # copy_loop b (cs @ dollar # dollar # t) []"
    by (simp add: copy_loop_no_match)
  moreover have "\<not> strstr_dd (cs @ [dollar])"
    using Cons.prems by simp
  ultimately show ?case using Cons.IH by simp
qed

lemma copy_loop_join:
  "leftmost_segments segs \<Longrightarrow> copy_loop b (join [dollar, dollar] segs) [] = join b segs"
proof (induction segs rule: leftmost_segments.induct)
  case 1
  then show ?case by simp
next
  case (2 s)
  then show ?case by (simp add: copy_loop_plain)
next
  case (3 s t r)
  then show ?case by (simp add: copy_loop_segment)
qed

lemma count_loop_length:
  "int (length (copy_loop b s [])) = int (length s) + count_loop s * (int (length b) - 2)"
proof (induction s rule: length_induct)
  case (1 s)
  show ?case
  proof (cases s)
    case Nil
    then show ?thesis by simp
  next
    case (Cons c cs)
    show ?thesis
    proof (cases "starts_with_dd (c # cs)")
      case True
      then obtain t where t: "s = dollar # dollar # t"
        using Cons by (auto simp: starts_with_dd_iff)
      have "length t < length s" using t by simp
      then have "int (length (copy_loop b t [])) = int (length t) + count_loop t * (int (length b) - 2)"
        using 1 by blast
      moreover have "count_loop s = 1 + count_loop t"
        using t by (simp add: count_loop.simps(2) starts_with_dd_iff)
      ultimately show ?thesis
        by (simp add: t copy_loop_match algebra_simps)
    next
      case False
      have "length cs < length s" using Cons by simp
      then have "int (length (copy_loop b cs [])) = int (length cs) + count_loop cs * (int (length b) - 2)"
        using 1 by blast
      moreover have "count_loop s = count_loop cs"
        using False Cons by (simp add: count_loop.simps(2))
      ultimately show ?thesis
        using False by (simp add: Cons copy_loop_no_match)
    qed
  qed
qed

lemma replace_double_dollarsigns_fits:
  "replace_double_dollarsigns w pid = Inr (copy_loop (sprintf_d pid) w [])"
  by (simp add: replace_double_dollarsigns_def malloc_size_def count_loop_length Let_def)

lemma segments_exist: "\<exists>segs. leftmost_segments segs \<and> join [dollar, dollar] segs = s"
proof (induction s rule: length_induct)
  case (1 s)
  show ?case
  proof (cases s)
    case Nil
    have "leftmost_segments [[]] \<and> join [dollar, dollar] [[]] = s" using Nil by simp
    then show ?thesis by blast
  next
    case (Cons c cs)
    show ?thesis
    proof (cases "starts_with_dd (c # cs)")
      case True
      then obtain t where t: "s = dollar # dollar # t"
        using Cons by (auto simp: starts_with_dd_iff)
      have "length t < length s" using t by simp
      then obtain segs where segs: "leftmost_segments segs" "join [dollar, dollar] segs = t"
        using 1 by blast
      then obtain x xs where xs: "segs = x # xs" by (cases segs) auto
      have "leftmost_segments ([] # segs) \<and> join [dollar, dollar] ([] # segs) = s"
        using segs t xs by (simp add: starts_with_dd_iff)
      then show ?thesis by blast
    next
      case False
      have "length cs < length s" using Cons by simp
      then obtain segs where segs: "leftmost_segments segs" "join [dollar, dollar] segs = cs"
        using 1 by blast
      then obtain x xs where xs: "segs = x # xs" by (cases segs) auto
      have "leftmost_segments ((c # x) # xs) \<and> join [dollar, dollar] ((c # x) # xs) = s"
      proof (cases xs)
        case Nil
        then show ?thesis using segs Cons xs False by simp
      next
        case (Cons y ys)
        have cs: "cs = x @ dollar # dollar # join [dollar, dollar] (y # ys)"
          using segs(2) xs Cons by simp
        have front: "\<not> starts_with_dd (c # x @ [dollar])"
          using False cs by (cases x) (auto simp: starts_with_dd_iff)
        have "\<not> strstr_dd (x @ [dollar])" "leftmost_segments (y # ys)"
          using segs(1) xs Cons by simp_all
        then show ?thesis using \<open>s = c # cs\<close> cs front Cons by simp
      qed
      then show ?thesis by blast
    qed
  qed
qed

lemma replace_double_dollarsigns_segments:
  assumes "leftmost_segments segs"
  shows "replace_double_dollarsigns (join [dollar, dollar] segs) pid = Inr (join (sprintf_d pid) segs)"
  by (simp add: replace_double_dollarsigns_fits copy_loop_join [OF assms])

lemma parse_loop_placeholder:
  assumes "token \<noteq> ''<''" "token \<noteq> ''>''" "strstr_dd token" "scan_word token = w" "w \<noteq> []"
    "length w < 512" "0 \<le> index s" "index s < 2048"
  shows "parse_loop pid (token # rest) s
         = parse_loop pid rest
             (s\<lparr> str := Some w,
                 command_line := (command_line s)(index s := Ptr (copy_loop (sprintf_d pid) w [])),
                 index := index s + 1 \<rparr>)"
  using assms by (simp add: sscanf_s_def store_word_def replace_double_dollarsigns_fits)

text \<open>The example of the specification.\<close>

lemma placeholder_example:
  "replace_double_dollarsigns ''id$$log'' 1234 = Inr ''id1234log''"
  by code_simp

text \<open>
  Claim C6, on the code. The expansion is applied in the third branch of the parsing
  loop only. A token that follows \<open><\<close> or \<open>>\<close> is copied to \<^verbatim>\<open>input_file\<close> or
  \<^verbatim>\<open>output_file\<close> as it stands: with process identifier 1234 the argument \<^verbatim>\<open>id$$log\<close>
  becomes \<^verbatim>\<open>id1234log\<close>, while the child opens the files named \<^verbatim>\<open>in$$\<close> and \<^verbatim>\<open>out$$\<close>.
\<close>

theorem redirection_paths_not_expanded:
  "fst (shell_iteration (quiet_os\<lparr>fork := 0\<rparr>)
          (Some (''cat id$$log < in$$ > out$$'' @ [newline])) initial_state)
     = [Prompt, Sys_fork, Sys_sigaction_SIGINT SIG_DFL,
        Sys_open_read ''in$$'', Sys_dup2 0, Sys_close,
        Sys_open_write ''out$$'', Sys_dup2 1, Sys_close,
        Sys_execvp [''cat'', ''id1234log'']]"
  by code_simp

section \<open>Tokenizing plain command lines\<close>

lemma split_tokens_word:
  "space \<notin> set w \<Longrightarrow> split_tokens cur (w @ rest) = split_tokens (cur @ w) rest"
  by (induction w arbitrary: cur) auto

lemma split_tokens_last:
  assumes "space \<notin> set w" "w \<noteq> []"
  shows "split_tokens [] (w @ [newline]) = [w @ [newline]]"
proof -
  have "space \<notin> set (w @ [newline])"
    using assms by (simp add: space_def newline_def)
  then have "split_tokens [] ((w @ [newline]) @ []) = split_tokens ([] @ (w @ [newline])) []"
    by (rule split_tokens_word)
  then show ?thesis using assms by simp
qed

lemma split_tokens_join:
  assumes "ws \<noteq> []" "\<forall>w\<in>set ws. w \<noteq> [] \<and> space \<notin> set w"
  shows "split_tokens [] (join [space] ws @ [newline]) = butlast ws @ [last ws @ [newline]]"
  using assms
proof (induction ws)
  case Nil
  then show ?case by simp
next
  case (Cons s ws)
  have s: "s \<noteq> []" "space \<notin> set s" using Cons.prems(2) by simp_all
  show ?case
  proof (cases ws)
    case Nil
    then show ?thesis using s by (simp add: split_tokens_last)
  next
    case (Cons t r)
    have "split_tokens [] (s @ (space # join [space] ws @ [newline]))
          = split_tokens ([] @ s) (space # join [space] ws @ [newline])"
      by (rule split_tokens_word [OF s(2)])
    also have "\<dots> = s # split_tokens [] (join [space] ws @ [newline])"
      using s(1) by simp
    also have "\<dots> = s # butlast ws @ [last ws @ [newline]]"
      using Cons.IH Cons.prems(2) Cons by simp
    finally show ?thesis using Cons by simp
  qed
qed

lemma strstr_dd_newline: "\<not> strstr_dd w \<Longrightarrow> \<not> strstr_dd (w @ [newline])"
proof (induction w)
  case Nil
  show ?case by (simp add: starts_with_dd_def)
next
  case (Cons c cs)
  have "\<not> starts_with_dd (c # cs @ [newline])"
    using Cons.prems by (cases cs) (simp_all add: starts_with_dd_def newline_def dollar_def)
  then show ?case using Cons by simp
qed

lemma scan_word_plain:
  assumes "w \<noteq> []" "list_all (\<lambda>c. \<not> isspace c) w"
  shows "scan_word w = w" "scan_word (w @ [newline]) = w"
proof -
  obtain c cs where w: "w = c # cs" using assms(1) by (cases w) auto
  have c: "\<not> isspace c" using assms(2) w by simp
  have all: "\<forall>x\<in>set w. \<not> isspace x" using assms(2) by (simp add: list_all_iff)
  have nl: "isspace newline" by (simp add: isspace_def newline_def)
  have drop: "dropWhile isspace (w @ r) = w @ r" for r
    using c w by simp
  show "scan_word w = w"
    using drop [of "[]"] all by (simp add: scan_word_def)
  show "scan_word (w @ [newline]) = w"
    using all nl by (simp add: scan_word_def drop takeWhile_append2 del: append.simps)
qed

lemma sscanf_s_word:
  assumes "simple_word w"
  shows "sscanf_s w 512 = Inr (Some w)" "sscanf_s (w @ [newline]) 512 = Inr (Some w)"
  using assms by (simp_all add: simple_word_def sscanf_s_def scan_word_plain)

lemma simple_word_token:
  assumes "simple_word w" "t = w \<or> t = w @ [newline]"
  shows "t \<noteq> ''<''" "t \<noteq> ''>''" "\<not> strstr_dd t" "sscanf_s t 512 = Inr (Some w)"
proof -
  have w: "w \<noteq> []" "w \<noteq> ''<''" "w \<noteq> ''>''" "\<not> strstr_dd w"
    using assms(1) by (simp_all add: simple_word_def)
  show "t \<noteq> ''<''" using assms(2) w by (cases w) auto
  show "t \<noteq> ''>''" using assms(2) w by (cases w) auto
  show "\<not> strstr_dd t" using assms(2) w strstr_dd_newline by blast
  show "sscanf_s t 512 = Inr (Some w)" using assms sscanf_s_word by blast
qed

lemma parse_loop_word:
  assumes "simple_word w" "t = w \<or> t = w @ [newline]" "0 \<le> index s" "index s < 2048"
  shows "parse_loop pid (t # rest) s
         = parse_loop pid rest
             (s\<lparr> str := Some w, command_line := (command_line s)(index s := Ptr w),
                 index := index s + 1 \<rparr>)"
  using assms(3,4) simple_word_token [OF assms(1,2)]
  by (simp add: store_word_def)

lemma stored_cells_Nil: "stored_cells [] base cl = cl"
  by (auto simp: stored_cells_def fun_eq_iff)

lemma stored_cells_Cons:
  "stored_cells ws (base + 1) (cl(base := Ptr w)) = stored_cells (w # ws) base cl"
proof
  fix i
  show "stored_cells ws (base + 1) (cl(base := Ptr w)) i = stored_cells (w # ws) base cl i"
  proof (cases "i = base")
    case True
    then show ?thesis by (simp add: stored_cells_def)
  next
    case False
    have "nat (i - base) = Suc (nat (i - (base + 1)))" if "base + 1 \<le> i"
      using that by simp
    then show ?thesis using False by (auto simp: stored_cells_def)
  qed
qed

lemma stored_Nil: "stored [] s = s"
  by (simp add: stored_def stored_cells_Nil)

lemma stored_Cons:
  "stored ws (s\<lparr> str := Some w, command_line := (command_line s)(index s := Ptr w),
                 index := index s + 1 \<rparr>)
   = stored (w # ws) s"
  by (simp add: stored_def stored_cells_Cons add.assoc)

lemma parse_loop_words:
  assumes "ws \<noteq> []" "list_all simple_word ws" "0 \<le> index s" "index s + int (length ws) \<le> 2048"
  shows "parse_loop pid (butlast ws @ [last ws @ [newline]]) s = Inr (stored ws s)"
  using assms
proof (induction ws arbitrary: s)
  case Nil
  then show ?case by simp
next
  case (Cons w ws)
  let ?s = "s\<lparr> str := Some w, command_line := (command_line s)(index s := Ptr w),
                index := index s + 1 \<rparr>"
  have w: "simple_word w" using Cons.prems(2) by simp
  have idx: "0 \<le> index s" "index s < 2048" using Cons.prems(3,4) by simp_all
  show ?case
  proof (cases ws)
    case Nil
    have "parse_loop pid [w @ [newline]] s = parse_loop pid [] ?s"
      by (rule parse_loop_word [OF w _ idx]) simp
    then show ?thesis using Nil stored_Cons [of "[]" s w] by (simp add: stored_Nil)
  next
    case (Cons t r)
    have "parse_loop pid (w # butlast ws @ [last ws @ [newline]]) s
          = parse_loop pid (butlast ws @ [last ws @ [newline]]) ?s"
      by (rule parse_loop_word [OF w _ idx]) simp
    also have "\<dots> = Inr (stored ws ?s)"
      using Cons.IH [of ?s] Cons.prems Cons by simp
    finally show ?thesis using Cons by (simp add: stored_Cons)
  qed
qed

lemma simple_word_no_space: "simple_word w \<Longrightarrow> w \<noteq> [] \<and> space \<notin> set w"
  by (auto simp: simple_word_def list_all_iff isspace_def space_def)

lemma simple_word_amp: "simple_word ''&''"
  by (simp add: simple_word_def isspace_def starts_with_dd_def dollar_def)

lemma tokenize_words:
  assumes "ws \<noteq> []" "list_all simple_word ws" "int (length ws) \<le> 2048"
  shows "tokenize pid (Some (join [space] ws @ [newline])) s = Inr (stored ws (fresh_locals s))"
proof -
  have plain: "\<forall>w\<in>set ws. w \<noteq> [] \<and> space \<notin> set w"
    using assms(2) simple_word_no_space by (auto simp: list_all_iff)
  have toks: "strtok_all (join [space] ws @ [newline]) = butlast ws @ [last ws @ [newline]]"
    unfolding strtok_all_def by (rule split_tokens_join [OF assms(1) plain])
  have parse: "parse_loop pid (butlast ws @ [last ws @ [newline]]) (fresh_locals s)
               = Inr (stored ws (fresh_locals s))"
    by (rule parse_loop_words [OF assms(1,2)]) (use assms(3) in \<open>simp_all add: fresh_locals_def\<close>)
  obtain w r where ws: "ws = w # r" using assms(1) by (cases ws) auto
  obtain c cs where w: "w = c # cs" using plain ws by (cases w) auto
  have "\<not> isspace c" using assms(2) ws w by (simp add: simple_word_def)
  then have "c \<noteq> newline" by (auto simp: isspace_def newline_def)
  then have first: "take 1 (join [space] ws @ [newline]) \<noteq> [newline]"
    using ws w by (cases r) simp_all
  show ?thesis
    using toks parse first by (simp add: tokenize_def fgets_def blank_check_def)
qed

lemma stored_cells_nth:
  "k < length ws \<Longrightarrow> stored_cells ws 0 cl (int k) = Ptr (ws ! k)"
  by (simp add: stored_cells_def)

lemma with_marker_words:
  assumes "command_words cmd"
  shows "with_marker cmd amp \<noteq> []" "list_all simple_word (with_marker cmd amp)"
    "int (length (with_marker cmd amp)) \<le> 2048"
    "hd (with_marker cmd amp) = hd cmd"
    "length (with_marker cmd amp) = (if amp then Suc (length cmd) else length cmd)"
    "last (with_marker cmd amp) = (if amp then ''&'' else last cmd)"
  using assms by (simp_all add: command_words_def with_marker_def simple_word_amp)

lemma tokenize_command:
  assumes "command_words cmd"
  shows "tokenize pid (Some (command_text cmd amp)) s
         = Inr (stored (with_marker cmd amp) (fresh_locals s))"
  unfolding command_text_def
  by (rule tokenize_words [OF with_marker_words(1,2,3) [OF assms]])

lemma read_argv_cells:
  assumes "\<forall>k < length ws. cl (i + int k) = Ptr (ws ! k)" "cl (i + int (length ws)) = Null"
    "length ws < fuel"
  shows "read_argv cl fuel i = Inr ws"
  using assms
proof (induction ws arbitrary: i fuel)
  case Nil
  then obtain n where "fuel = Suc n" by (cases fuel) auto
  then show ?case using Nil by simp
next
  case (Cons w ws)
  then obtain n where fuel: "fuel = Suc n" by (cases fuel) auto
  have head: "cl i = Ptr w" using Cons.prems(1) by force
  have "\<forall>k < length ws. cl (i + 1 + int k) = Ptr (ws ! k)"
  proof (intro allI impI)
    fix k assume "k < length ws"
    then have "cl (i + int (Suc k)) = Ptr ((w # ws) ! Suc k)"
      using Cons.prems(1) by (metis Suc_less_eq length_Cons)
    then show "cl (i + 1 + int k) = Ptr (ws ! k)" by (simp add: add.assoc)
  qed
  moreover have "cl (i + 1 + int (length ws)) = Null"
    using Cons.prems(2) by (simp add: add.assoc)
  moreover have "length ws < n" using Cons.prems(3) fuel by simp
  ultimately have "read_argv cl n (i + 1) = Inr ws" by (rule Cons.IH)
  then show ?case using head fuel by simp
qed

section \<open>What tokenizing leaves alone\<close>

lemma untouched_refl: "untouched s s"
  by (simp add: untouched_def)

lemma untouched_store_word:
  "store_word w s = Inr s' \<Longrightarrow> untouched s s'"
  by (auto simp: store_word_def untouched_def split: if_splits)

lemma parse_loop_untouched:
  "parse_loop pid tokens s = Inr s' \<Longrightarrow> untouched s s'"
proof (induction tokens arbitrary: s rule: length_induct)
  case (1 tokens)
  note IH = 1(1) [rule_format]
  show ?case
  proof (cases tokens)
    case Nil
    then show ?thesis using 1(2) by (simp add: untouched_refl)
  next
    case (Cons token rest)
    have step: "untouched s0 s'" if "parse_loop pid ts s0 = Inr s'" "length ts < length tokens" for ts s0
      using IH [OF that(2) that(1)] .
    consider (inp) "token = ''<''" | (out) "token \<noteq> ''<''" "token = ''>''"
      | (word) "token \<noteq> ''<''" "token \<noteq> ''>''" by blast
    then show ?thesis
    proof cases
      case inp
      then obtain path rest' where rest: "rest = path # rest'"
        using 1(2) Cons by (cases rest) auto
      have len: "length rest' < length tokens" using Cons rest by simp
      show ?thesis
      proof (cases "sscanf_s path 100")
        case (Inl f)
        then show ?thesis using 1(2) Cons rest inp by simp
      next
        case (Inr r)
        show ?thesis
        proof (cases r)
          case None
          then have "parse_loop pid rest' s = Inr s'" using 1(2) Cons rest inp Inr by simp
          then show ?thesis using step len by blast
        next
          case (Some w)
          then have "parse_loop pid rest' (s\<lparr>input_file := w\<rparr>) = Inr s'"
            using 1(2) Cons rest inp Inr by simp
          then have "untouched (s\<lparr>input_file := w\<rparr>) s'" using step len by blast
          then show ?thesis by (simp add: untouched_def)
        qed
      qed
    next
      case out
      then obtain path rest' where rest: "rest = path # rest'"
        using 1(2) Cons by (cases rest) auto
      have len: "length rest' < length tokens" using Cons rest by simp
      show ?thesis
      proof (cases "sscanf_s path 100")
        case (Inl f)
        then show ?thesis using 1(2) Cons rest out by simp
      next
        case (Inr r)
        show ?thesis
        proof (cases r)
          case None
          then have "parse_loop pid rest' s = Inr s'" using 1(2) Cons rest out Inr by simp
          then show ?thesis using step len by blast
        next
          case (Some w)
          then have "parse_loop pid rest' (s\<lparr>output_file := w\<rparr>) = Inr s'"
            using 1(2) Cons rest out Inr by simp
          then have "untouched (s\<lparr>output_file := w\<rparr>) s'" using step len by blast
          then show ?thesis by (simp add: untouched_def)
        qed
      qed
    next
      case word
      have len: "length rest < length tokens" using Cons by simp
      from 1(2) Cons word obtain w e s1 where
        s1: "store_word e (s\<lparr>str := Some w\<rparr>) = Inr s1" "parse_loop pid rest s1 = Inr s'"
        by (auto split: if_splits sum.splits option.splits)
      have "untouched (s\<lparr>str := Some w\<rparr>) s1" by (rule untouched_store_word [OF s1(1)])
      moreover have "untouched s1 s'" using step [OF s1(2) len] .
      ultimately show ?thesis by (simp add: untouched_def)
    qed
  qed
qed

lemma tokenize_untouched:
  assumes "tokenize pid line s = Inr s'"
  shows "untouched s s'"
proof -
  from assms obtain s1 where s1: "parse_loop pid (strtok_all (fgets line)) (fresh_locals s) = Inr s1"
    and s': "s' = blank_check (fgets line) s1"
    by (auto simp: tokenize_def split: sum.splits)
  have "untouched (fresh_locals s) s1" by (rule parse_loop_untouched [OF s1])
  then show ?thesis using s' by (simp add: untouched_def fresh_locals_def blank_check_def)
qed

section \<open>Lines by the words they store\<close>

lemma holds_words_nth:
  "holds_words s ws \<Longrightarrow> k < length ws \<Longrightarrow> command_line s (int k) = Ptr (ws ! k)"
  by (simp add: holds_words_def list_all_iff)

lemma holds_words_index: "holds_words s ws \<Longrightarrow> index s = int (length ws)"
  by (simp add: holds_words_def)

lemma holds_words_stored: "holds_words (stored ws (fresh_locals s)) ws"
  by (simp add: holds_words_def stored_def fresh_locals_def list_all_iff stored_cells_nth)

lemma is_command_holds:
  assumes "holds_words s (with_marker cmd amp)" "marked_command cmd amp"
  shows "is_command s = Inr True"
proof -
  have cmd: "cmd \<noteq> []" "take 1 (hd cmd) \<noteq> ''#''"
    using assms(2) by (simp_all add: marked_command_def)
  have "0 < length (with_marker cmd amp)" using cmd by (simp add: with_marker_def)
  then have "command_line s (int 0) = Ptr (with_marker cmd amp ! 0)"
    by (rule holds_words_nth [OF assms(1)])
  moreover have "with_marker cmd amp ! 0 = hd cmd"
    using cmd by (cases cmd) (simp_all add: with_marker_def)
  ultimately show ?thesis using cmd by (simp add: is_command_def)
qed

lemma strip_background_holds:
  assumes "holds_words s (with_marker cmd amp)" "marked_command cmd amp"
  shows "strip_background s = Inr (stripped cmd amp s)"
proof -
  let ?ws = "with_marker cmd amp"
  have cmd: "cmd \<noteq> []" "amp \<or> last cmd \<noteq> ''&''" "length cmd < 2048"
    using assms(2) by (simp_all add: marked_command_def)
  have idx: "index s = int (length ?ws)" by (rule holds_words_index [OF assms(1)])
  have len: "length ?ws = (if amp then Suc (length cmd) else length cmd)"
    by (simp add: with_marker_def)
  have pos: "0 < length ?ws" using cmd(1) len by simp
  have last: "last ?ws = (if amp then ''&'' else last cmd)"
    using cmd(1) by (simp add: with_marker_def)
  have "command_line s (int (length ?ws - 1)) = Ptr (?ws ! (length ?ws - 1))"
    using pos by (intro holds_words_nth [OF assms(1)]) simp
  moreover have "?ws ! (length ?ws - 1) = last ?ws"
    using pos by (simp add: last_conv_nth)
  moreover have "int (length ?ws - 1) = index s - 1"
    using pos idx by (cases "length ?ws") simp_all
  ultimately have cell: "command_line s (index s - 1) = Ptr (last ?ws)" by simp
  show ?thesis
  proof (cases amp)
    case True
    have "strip_background s
          = Inr (s\<lparr> command_line := (command_line s)(index s - 1 := Null),
                     background_mode_flag := 1 \<rparr>)"
      using cell last True idx len cmd(3) by (simp add: strip_background_def)
    also have "\<dots> = Inr (stripped cmd amp s)"
      using True idx len by (simp add: stripped_def)
    finally show ?thesis .
  next
    case False
    have "strip_background s
          = Inr (s\<lparr> command_line := (command_line s)(index s := Null),
                     index := index s + 1, background_mode_flag := 0 \<rparr>)"
      using cell last False idx len cmd by (simp add: strip_background_def)
    also have "\<dots> = Inr (stripped cmd amp s)"
      using False idx len by (simp add: stripped_def)
    finally show ?thesis .
  qed
qed

lemma stripped_nth:
  assumes "holds_words s (with_marker cmd amp)" "k < length cmd"
  shows "command_line (stripped cmd amp s) (int k) = Ptr (cmd ! k)"
proof -
  have "k < length (with_marker cmd amp)" using assms(2) by (simp add: with_marker_def)
  then have "command_line s (int k) = Ptr (with_marker cmd amp ! k)"
    by (rule holds_words_nth [OF assms(1)])
  then show ?thesis using assms(2) by (simp add: stripped_def with_marker_def nth_append)
qed

lemma stripped_cells:
  assumes "holds_words s (with_marker cmd amp)" "marked_command cmd amp"
  shows "command_line (stripped cmd amp s) 0 = Ptr (hd cmd)"
    and "1 < length cmd \<Longrightarrow> command_line (stripped cmd amp s) 1 = Ptr (cmd ! 1)"
    and "index (stripped cmd amp s) - 1 = 1 \<longleftrightarrow> length cmd = 1"
    and "read_argv (command_line (stripped cmd amp s)) 2048 0 = Inr cmd"
proof -
  have cmd: "cmd \<noteq> []" "length cmd < 2048"
    using assms(2) by (simp_all add: marked_command_def)
  have "command_line (stripped cmd amp s) (int 0) = Ptr (cmd ! 0)"
    using cmd(1) by (intro stripped_nth [OF assms(1)]) simp
  then show "command_line (stripped cmd amp s) 0 = Ptr (hd cmd)"
    using cmd(1) by (simp add: hd_conv_nth)
  show "command_line (stripped cmd amp s) 1 = Ptr (cmd ! 1)" if "1 < length cmd"
    using stripped_nth [OF assms(1) that] by simp
  show "index (stripped cmd amp s) - 1 = 1 \<longleftrightarrow> length cmd = 1"
    by (simp add: stripped_def)
  show "read_argv (command_line (stripped cmd amp s)) 2048 0 = Inr cmd"
  proof (rule read_argv_cells)
    show "\<forall>k<length cmd. command_line (stripped cmd amp s) (0 + int k) = Ptr (cmd ! k)"
      using stripped_nth [OF assms(1)] by simp
    show "command_line (stripped cmd amp s) (0 + int (length cmd)) = Null"
      by (simp add: stripped_def)
    show "length cmd < 2048" using cmd(2) .
  qed
qed

lemma shell_iteration_holds:
  assumes "tokenize (getpid os) line s = Inr s1" "holds_words s1 (with_marker cmd amp)"
    "marked_command cmd amp"
  shows "shell_iteration os line s
         = (case dispatch os (stripped cmd amp s1) of
              (evs, Continue s3) \<Rightarrow>
                (Prompt # evs @ fst (reaper_loop (waitpid_nohang os) s3),
                 Continue (snd (reaper_loop (waitpid_nohang os) s3)))
            | (evs, out) \<Rightarrow> (Prompt # evs, out))"
  by (simp add: shell_iteration_def assms(1) is_command_holds [OF assms(2,3)]
      strip_background_holds [OF assms(2,3)])

lemma stripped_untouched:
  assumes "tokenize pid line s = Inr s1"
  shows "foreground_mode_flag (stripped cmd amp s1) = foreground_mode_flag s"
    and "child_exit_status (stripped cmd amp s1) = child_exit_status s"
    and "sigint (stripped cmd amp s1) = sigint s"
    and "background_mode_flag (stripped cmd amp s1) = (if amp then 1 else 0)"
    and "input_file (stripped cmd amp s1) = input_file s1"
    and "output_file (stripped cmd amp s1) = output_file s1"
  using tokenize_untouched [OF assms] by (simp_all add: stripped_def untouched_def)


lemma plain_marked: "command_words cmd \<Longrightarrow> marked_command cmd amp"
  by (simp add: marked_command_def command_words_def)

text \<open>
  Every line that passes the guard of line 161 stores some list of words, and is one of
  four kinds: nothing was stored (only redirections), and line 163 reads
  \<^verbatim>\<open>command_line[-1]\<close>; the only word is \<open>&\<close>, and line 173 compares a null pointer; the
  array is full and the NULL that ends the vector is written past it; or the line is a
  command with or without its marker, which the statements below are about.
\<close>

lemma holds_words_store_word:
  assumes "holds_words s ws" "store_word e (s\<lparr>str := x\<rparr>) = Inr s1"
  shows "holds_words s1 (ws @ [e])" "length ws < 2048"
proof -
  have idx: "index s = int (length ws)" by (rule holds_words_index [OF assms(1)])
  have s1: "s1 = s\<lparr>str := x, command_line := (command_line s)(index s := Ptr e), index := index s + 1\<rparr>"
    and bound: "index s < 2048"
    using assms(2) by (auto simp: store_word_def split: if_splits)
  show "length ws < 2048" using idx bound by simp
  have "command_line s1 (int k) = Ptr ((ws @ [e]) ! k)" if "k < length (ws @ [e])" for k
  proof (cases "k < length ws")
    case True
    then show ?thesis using holds_words_nth [OF assms(1) True] idx by (simp add: s1 nth_append)
  next
    case False
    then have "k = length ws" using that by simp
    then show ?thesis using idx by (simp add: s1)
  qed
  then have "\<forall>k\<in>set [0..<length (ws @ [e])]. command_line s1 (int k) = Ptr ((ws @ [e]) ! k)"
    by simp
  moreover have "index s1 = int (length (ws @ [e]))" using idx by (simp add: s1)
  ultimately show "holds_words s1 (ws @ [e])"
    unfolding holds_words_def list_all_iff by blast
qed

lemma holds_words_files:
  "holds_words s ws \<Longrightarrow> holds_words (s\<lparr>input_file := w\<rparr>) ws"
  "holds_words s ws \<Longrightarrow> holds_words (s\<lparr>output_file := w\<rparr>) ws"
  by (simp_all add: holds_words_def)

lemma parse_loop_holds:
  "holds_words s ws \<Longrightarrow> parse_loop pid tokens s = Inr s' \<Longrightarrow> length ws \<le> 2048 \<Longrightarrow>
     \<exists>ws'. holds_words s' (ws @ ws') \<and> length (ws @ ws') \<le> 2048"
proof (induction tokens arbitrary: s ws rule: length_induct)
  case (1 tokens)
  note IH = 1(1) [rule_format]
  show ?case
  proof (cases tokens)
    case Nil
    then have "holds_words s' (ws @ []) \<and> length (ws @ []) \<le> 2048" using 1(2,3,4) by simp
    then show ?thesis by blast
  next
    case (Cons token rest)
    have step: "\<exists>ws'. holds_words s' (vs @ ws') \<and> length (vs @ ws') \<le> 2048"
      if "holds_words s0 vs" "parse_loop pid ts s0 = Inr s'" "length ts < length tokens"
        "length vs \<le> 2048" for ts s0 vs
      using IH [OF that(3) that(1) that(2) that(4)] .
    consider (redirect) "token = ''<'' \<or> token = ''>''" | (word) "token \<noteq> ''<''" "token \<noteq> ''>''"
      by blast
    then show ?thesis
    proof cases
      case redirect
      then obtain path rest' where rest: "rest = path # rest'"
        using 1(3) Cons by (cases rest) auto
      have len: "length rest' < length tokens" using Cons rest by simp
      from 1(3) Cons rest redirect obtain s0 where
        s0: "parse_loop pid rest' s0 = Inr s'"
          "s0 = s \<or> (\<exists>w. s0 = s\<lparr>input_file := w\<rparr>) \<or> (\<exists>w. s0 = s\<lparr>output_file := w\<rparr>)"
        by (auto split: if_splits sum.splits option.splits)
      have "holds_words s0 ws" using s0(2) 1(2) holds_words_files by auto
      then show ?thesis using step [OF _ s0(1) len 1(4)] by blast
    next
      case word
      have len: "length rest < length tokens" using Cons by simp
      from 1(3) Cons word obtain w e s1 where
        s1: "store_word e (s\<lparr>str := Some w\<rparr>) = Inr s1" "parse_loop pid rest s1 = Inr s'"
        by (auto split: if_splits sum.splits option.splits)
      have "holds_words s1 (ws @ [e])" by (rule holds_words_store_word(1) [OF 1(2) s1(1)])
      moreover have "length (ws @ [e]) \<le> 2048"
        using holds_words_store_word(2) [OF 1(2) s1(1)] by simp
      ultimately obtain ws' where "holds_words s' ((ws @ [e]) @ ws')" "length ((ws @ [e]) @ ws') \<le> 2048"
        using step [OF _ s1(2) len] by blast
      then have "holds_words s' (ws @ (e # ws')) \<and> length (ws @ (e # ws')) \<le> 2048" by simp
      then show ?thesis by blast
    qed
  qed
qed

lemma tokenize_holds:
  assumes "tokenize pid line s = Inr s1" "is_command s1 = Inr True"
  shows "\<exists>ws. holds_words s1 ws \<and> length ws \<le> 2048"
proof -
  from assms(1) obtain s0 where s0: "parse_loop pid (strtok_all (fgets line)) (fresh_locals s) = Inr s0"
    and s1: "s1 = blank_check (fgets line) s0"
    by (auto simp: tokenize_def split: sum.splits)
  have "holds_words (fresh_locals s) []" by (simp add: holds_words_def fresh_locals_def)
  then obtain ws where ws: "holds_words s0 ([] @ ws)" "length ([] @ ws) \<le> 2048"
    using parse_loop_holds [OF _ s0] by force
  have "take 1 (fgets line) \<noteq> [newline]"
    using assms(2) s1 by (auto simp: blank_check_def is_command_def)
  then have "s1 = s0" using s1 by (simp add: blank_check_def)
  then show ?thesis using ws by auto
qed

lemma command_line_cases:
  assumes "tokenize (getpid os) line s = Inr s1" "is_command s1 = Inr True"
  shows "(index s1 = 0 \<and> shell_iteration os line s = ([Prompt], Crashed OutOfBounds))
       \<or> (holds_words s1 [''&''] \<and> shell_iteration os line s = ([Prompt], Crashed NullDeref))
       \<or> (\<exists>ws. holds_words s1 ws \<and> length ws = 2048
             \<and> shell_iteration os line s = ([Prompt], Crashed BufferOverflow))
       \<or> (\<exists>cmd amp. holds_words s1 (with_marker cmd amp) \<and> marked_command cmd amp)"
proof -
  obtain ws where ws: "holds_words s1 ws" "length ws \<le> 2048"
    using tokenize_holds [OF assms] by blast
  have idx: "index s1 = int (length ws)" by (rule holds_words_index [OF ws(1)])
  show ?thesis
  proof (cases "ws = []")
    case True
    then have "strip_background s1 = Inl OutOfBounds"
      using idx by (simp add: strip_background_def)
    then show ?thesis using assms idx True by (simp add: shell_iteration_def)
  next
    case False
    then have pos: "0 < length ws" by simp
    have first: "command_line s1 0 = Ptr (hd ws)"
      using holds_words_nth [OF ws(1) pos] False by (simp add: hd_conv_nth)
    then have comment: "take 1 (hd ws) \<noteq> ''#''"
      using assms(2) by (simp add: is_command_def)
    have "command_line s1 (int (length ws - 1)) = Ptr (ws ! (length ws - 1))"
      using pos by (intro holds_words_nth [OF ws(1)]) simp
    moreover have "int (length ws - 1) = index s1 - 1"
      using pos idx by (cases "length ws") simp_all
    ultimately have final: "command_line s1 (index s1 - 1) = Ptr (last ws)"
      using False by (simp add: last_conv_nth)
    show ?thesis
    proof (cases "last ws = ''&''")
      case True
      show ?thesis
      proof (cases "butlast ws = []")
        case lone: True
        then have one: "ws = [''&'']"
          using False True by (metis append_butlast_last_id append_Nil)
        have "strip_background s1
              = Inr (s1\<lparr>command_line := (command_line s1)(0 := Null), background_mode_flag := 1\<rparr>)"
          using final idx one by (simp add: strip_background_def)
        then have "shell_iteration os line s = ([Prompt], Crashed NullDeref)"
          using assms by (simp add: shell_iteration_def dispatch_def)
        then show ?thesis using ws(1) one by simp
      next
        case more: False
        have split: "ws = with_marker (butlast ws) True"
          using False True by (simp add: with_marker_def) (metis append_butlast_last_id)
        have "hd (butlast ws) = hd ws"
          using more by (cases ws) (auto split: if_splits)
        then have "marked_command (butlast ws) True"
          using more comment ws(2) pos by (simp add: marked_command_def)
        then show ?thesis using ws(1) split by metis
      qed
    next
      case unmarked: False
      show ?thesis
      proof (cases "length ws = 2048")
        case True
        have "strip_background s1 = Inl BufferOverflow"
          using final idx True unmarked by (simp add: strip_background_def)
        then have "shell_iteration os line s = ([Prompt], Crashed BufferOverflow)"
          using assms by (simp add: shell_iteration_def)
        then show ?thesis using ws(1) True by blast
      next
        case below: False
        have "marked_command ws False"
          using False unmarked comment ws(2) below by (simp add: marked_command_def)
        moreover have "ws = with_marker ws False" by (simp add: with_marker_def)
        ultimately show ?thesis using ws(1) by metis
      qed
    qed
  qed
qed

section \<open>Wait statuses and the collecting loop\<close>

lemma WTERMSIG_mod: "WTERMSIG status = status mod 128"
proof -
  have "(127::int) = mask 7" by (simp add: mask_eq_exp_minus_1)
  then have "status AND 127 = take_bit 7 status" by (simp only: take_bit_eq_mask)
  then show ?thesis by (simp add: WTERMSIG_def take_bit_eq_mod)
qed

lemma WEXITSTATUS_div: "WEXITSTATUS status = (status div 256) mod 256"
proof -
  have m: "(0xff00::int) = push_bit 8 (mask 8)" by (simp add: mask_eq_exp_minus_1 push_bit_eq_mult)
  have "drop_bit 8 (status AND push_bit 8 (mask 8)) = drop_bit 8 status AND mask 8"
    by (simp add: drop_bit_push_bit)
  then show ?thesis
    unfolding WEXITSTATUS_def m by (simp add: take_bit_eq_mask [symmetric] take_bit_eq_mod drop_bit_eq_div)
qed

lemma print_status_exit:
  assumes "0 \<le> n" "n < 256"
  shows "print_status (n * 256) = Exit_value n"
  using assms by (simp add: print_status_def WIFEXITED_def WTERMSIG_mod WEXITSTATUS_div)

lemma print_status_signal:
  assumes "0 < sig" "sig < 128"
  shows "print_status sig = Terminated_by_signal sig"
    and "print_status (sig + 128) = Terminated_by_signal (sig + 128)"
  using assms by (simp_all add: print_status_def WIFEXITED_def WTERMSIG_mod)

lemma print_status_cases:
  "print_status st = Exit_value (WEXITSTATUS st) \<or> print_status st = Terminated_by_signal st"
  by (simp add: print_status_def)

lemma reaper_loop_no_fork: "Sys_fork \<notin> set (fst (reaper_loop answers s))"
proof (induction answers s rule: reaper_loop.induct)
  case (1 s)
  show ?case by simp
next
  case (2 p status later s)
  then show ?case using print_status_cases [of status] by auto
qed

lemma reaper_loop_events: "fst (reaper_loop answers s) = fst (reaper_loop answers s')"
proof (induction answers arbitrary: s s')
  case Nil
  show ?case by simp
next
  case (Cons a answers)
  obtain p status where a: "a = (p, status)" by (cases a)
  show ?case
    using Cons [of "s\<lparr>spawnPid := p, child_exit_status := status\<rparr>"
                   "s'\<lparr>spawnPid := p, child_exit_status := status\<rparr>"]
    by (simp add: a)
qed

lemma reaper_loop_polls: "Sys_waitpid_nohang \<in> set (fst (reaper_loop answers s))"
  by (cases answers) auto


lemma reaper_loop_collects:
  "list_all (\<lambda>(p, status). 0 < p) answers \<Longrightarrow>
     fst (reaper_loop answers s)
       = concat (map (\<lambda>(p, status). [Sys_waitpid_nohang, Background_done p, print_status status])
           answers) @ [Sys_waitpid_nohang]"
  by (induction answers s rule: reaper_loop.induct) simp_all


lemma reaper_loop_observe:
  "foreground_mode_flag s' = foreground_mode_flag s \<Longrightarrow> child_exit_status s' = child_exit_status s \<Longrightarrow>
     observe (Continue (snd (reaper_loop answers s'))) = observe (Continue (snd (reaper_loop answers s)))"
proof (induction answers arbitrary: s s')
  case Nil
  then show ?case by simp
next
  case (Cons a answers)
  obtain p status where a: "a = (p, status)" by (cases a)
  show ?case
    using Cons.prems
      Cons.IH [of "s'\<lparr>spawnPid := p, child_exit_status := status\<rparr>"
                  "s\<lparr>spawnPid := p, child_exit_status := status\<rparr>"]
    by (simp add: a)
qed

section \<open>Built-in commands\<close>

lemma dispatch_builtin_holds:
  assumes "tokenize pid line s = Inr s1" "holds_words s1 (with_marker cmd amp)"
    "marked_command cmd amp" "builtin (hd cmd)"
  shows "dispatch os (stripped cmd amp s1)
         = (builtin_calls cmd (child_exit_status s),
            if hd cmd = ''exit'' then Exited 0 else Continue (stripped cmd amp s1))"
proof -
  note cells = stripped_cells [OF assms(2,3)]
  note same = stripped_untouched [OF assms(1), of cmd amp]
  have cmd: "cmd \<noteq> []" using assms(3) by (simp add: marked_command_def)
  consider "hd cmd = ''exit''" | "hd cmd = ''cd''" | "hd cmd = ''status''"
    using assms(4) by (auto simp: builtin_def)
  then show ?thesis
  proof cases
    case 1
    then show ?thesis using cells(1) by (simp add: dispatch_def builtin_calls_def)
  next
    case 2
    show ?thesis
    proof (cases "length cmd = 1")
      case True
      then show ?thesis using 2 cells(1,3) by (simp add: dispatch_def builtin_calls_def)
    next
      case False
      then have "1 < length cmd" using cmd by (cases cmd) auto
      then show ?thesis using 2 False cells by (simp add: dispatch_def builtin_calls_def)
    qed
  next
    case 3
    then show ?thesis using cells(1) same(2) by (simp add: dispatch_def builtin_calls_def)
  qed
qed


lemma builtin_iteration:
  assumes "tokenize (getpid os) line s = Inr s1" "holds_words s1 (with_marker cmd amp)"
    "marked_command cmd amp" "builtin (hd cmd)"
  shows "shell_iteration os line s
         = (if hd cmd = ''exit'' then ([Prompt], Exited 0)
            else (Prompt # builtin_calls cmd (child_exit_status s)
                    @ fst (reaper_loop (waitpid_nohang os) s),
                  Continue (snd (reaper_loop (waitpid_nohang os) (stripped cmd amp s1)))))"
  using shell_iteration_holds [OF assms(1,2,3)] dispatch_builtin_holds [OF assms, of os]
    reaper_loop_events [of "waitpid_nohang os" "stripped cmd amp s1" s]
  by (simp add: builtin_calls_def)







section \<open>External commands\<close>

lemma dispatch_external_holds:
  assumes "holds_words s1 (with_marker cmd amp)" "marked_command cmd amp" "\<not> builtin (hd cmd)"
  shows "dispatch os (stripped cmd amp s1) = launch os (hd cmd) (stripped cmd amp s1)"
  using assms(3) stripped_cells(1) [OF assms(1,2)]
  by (simp add: dispatch_def builtin_def)

lemma child_stripped:
  assumes "tokenize pid line s = Inr s1" "holds_words s1 (with_marker cmd amp)"
    "marked_command cmd amp"
  shows "\<forall>argv. Sys_execvp argv \<in> set (fst (child os c ((stripped cmd amp s1)\<lparr>spawnPid := p\<rparr>)))
           \<longrightarrow> argv = cmd"
    and "(Sys_sigaction_SIGINT SIG_DFL
            \<in> set (fst (child os c ((stripped cmd amp s1)\<lparr>spawnPid := p\<rparr>)))) = (\<not> amp)"
    and "snd (child_redirect_in os s1) \<Longrightarrow> snd (child_redirect_out os s1) \<Longrightarrow>
           Sys_execvp cmd \<in> set (fst (child os c ((stripped cmd amp s1)\<lparr>spawnPid := p\<rparr>)))
           \<and> snd (child os c ((stripped cmd amp s1)\<lparr>spawnPid := p\<rparr>))
               = (if execvp os then Execed (if amp then sigint s else SIG_DFL) cmd else Exited 1)"
proof -
  let ?s = "(stripped cmd amp s1)\<lparr>spawnPid := p\<rparr>"
  note same = stripped_untouched [OF assms(1), of cmd amp]
  have argv: "read_argv (command_line (stripped cmd amp s1)) 2048 0 = Inr cmd"
    by (rule stripped_cells(4) [OF assms(2,3)])
  obtain e1 t where sg: "child_sigint ?s = (e1, t)" by (cases "child_sigint ?s")
  have e1: "e1 = (if amp then [] else [Sys_sigaction_SIGINT SIG_DFL])"
    and t: "input_file t = input_file s1" "output_file t = output_file s1"
      "command_line t = command_line (stripped cmd amp s1)"
      "sigint t = (if amp then sigint s else SIG_DFL)"
    using sg same by (auto simp: child_sigint_def split: if_splits)
  have rin: "child_redirect_in os t = child_redirect_in os s1"
    using t by (simp add: child_redirect_in_def)
  have rout: "child_redirect_out os t = child_redirect_out os s1"
    using t by (simp add: child_redirect_out_def)
  obtain e2 ok2 where r2: "child_redirect_in os s1 = (e2, ok2)" by (cases "child_redirect_in os s1")
  obtain e3 ok3 where r3: "child_redirect_out os s1 = (e3, ok3)" by (cases "child_redirect_out os s1")
  have e2: "Sys_execvp a \<notin> set e2" "Sys_sigaction_SIGINT d \<notin> set e2" for a d
    using r2 by (auto simp: child_redirect_in_def split: if_splits)
  have e3: "Sys_execvp a \<notin> set e3" "Sys_sigaction_SIGINT d \<notin> set e3" for a d
    using r3 by (auto simp: child_redirect_out_def split: if_splits)
  have ch: "child os c ?s
            = (if \<not> ok2 then (e1 @ e2, Exited 1)
               else if \<not> ok3 then (e1 @ e2 @ e3, Exited 1)
               else if execvp os
                 then (e1 @ e2 @ e3 @ [Sys_execvp cmd], Execed (if amp then sigint s else SIG_DFL) cmd)
                 else (e1 @ e2 @ e3 @ [Sys_execvp cmd, Invalid_command c], Exited 1))"
    using sg rin rout r2 r3 argv t by (simp add: child_def)
  show "\<forall>argv. Sys_execvp argv \<in> set (fst (child os c ?s)) \<longrightarrow> argv = cmd"
    using ch e1 e2(1) e3(1) by (auto split: if_splits)
  show "(Sys_sigaction_SIGINT SIG_DFL \<in> set (fst (child os c ?s))) = (\<not> amp)"
    using ch e1 e2(2) e3(2) by (auto split: if_splits)
  show "Sys_execvp cmd \<in> set (fst (child os c ?s))
           \<and> snd (child os c ?s)
               = (if execvp os then Execed (if amp then sigint s else SIG_DFL) cmd else Exited 1)"
    if "snd (child_redirect_in os s1)" "snd (child_redirect_out os s1)"
    using that ch r2 r3 by simp
qed

text \<open>
  What lines 162-170 and 250-259 do with the words a line has stored, for a command
  that is not a built-in; \<open>amp\<close> tells whether the last stored word was \<open>&\<close>. In the
  parent, when \<^verbatim>\<open>fork\<close> succeeds: with the marker and \<^verbatim>\<open>foreground_mode_flag\<close> other than
  1 the shell prints the background pid and goes straight on to collecting finished
  children, with no blocking wait and the status variable as it was; in every other
  case it makes the blocking \<^verbatim>\<open>waitpid\<close> on that child and goes on with the status that
  call has stored for the child. In the child, the only vector ever handed to
  \<^verbatim>\<open>execvp\<close> is the stored words before the marker, and it is handed over whenever the
  redirections succeed.
\<close>

lemma external_command_marker:
  assumes "tokenize (getpid os) line s = Inr s1" "holds_words s1 (with_marker cmd amp)"
    "marked_command cmd amp" "\<not> builtin (hd cmd)"
  shows "fork os \<noteq> - 1 \<Longrightarrow> fork os \<noteq> 0 \<Longrightarrow> amp \<Longrightarrow> foreground_mode_flag s \<noteq> 1 \<Longrightarrow>
           fst (shell_iteration os line s)
             = Prompt # Sys_fork # Background_pid (fork os) # fst (reaper_loop (waitpid_nohang os) s)
           \<and> observe (snd (shell_iteration os line s))
             = observe (Continue (snd (reaper_loop (waitpid_nohang os) s)))"
    and "fork os \<noteq> - 1 \<Longrightarrow> fork os \<noteq> 0 \<Longrightarrow> \<not> amp \<or> foreground_mode_flag s = 1 \<Longrightarrow>
           fst (shell_iteration os line s)
             = Prompt # Sys_fork # Sys_waitpid (fork os) # fst (reaper_loop (waitpid_nohang os) s)
           \<and> observe (snd (shell_iteration os line s))
             = observe (Continue (snd (reaper_loop (waitpid_nohang os)
                 (s\<lparr>child_exit_status :=
                    (case waitpid_fg os of None \<Rightarrow> child_exit_status s | Some v \<Rightarrow> v)\<rparr>))))"
    and "fork os = 0 \<Longrightarrow>
           \<forall>argv. Sys_execvp argv \<in> set (fst (shell_iteration os line s)) \<longrightarrow> argv = cmd"
    and "fork os = 0 \<Longrightarrow> snd (child_redirect_in os s1) \<Longrightarrow> snd (child_redirect_out os s1) \<Longrightarrow>
           Sys_execvp cmd \<in> set (fst (shell_iteration os line s))"
proof -
  let ?s2 = "stripped cmd amp s1"
  note it = shell_iteration_holds [OF assms(1,2,3)]
  have d: "dispatch os ?s2 = launch os (hd cmd) ?s2"
    by (rule dispatch_external_holds [OF assms(2,3,4)])
  note flags = stripped_untouched(1,2,4) [OF assms(1), of cmd amp]
  show "fst (shell_iteration os line s)
             = Prompt # Sys_fork # Background_pid (fork os) # fst (reaper_loop (waitpid_nohang os) s)
           \<and> observe (snd (shell_iteration os line s))
             = observe (Continue (snd (reaper_loop (waitpid_nohang os) s)))"
    if "fork os \<noteq> - 1" "fork os \<noteq> 0" "amp" "foreground_mode_flag s \<noteq> 1"
  proof -
    let ?s3 = "?s2\<lparr>spawnPid := fork os\<rparr>"
    have "launch os (hd cmd) ?s2 = ([Sys_fork, Background_pid (fork os)], Continue ?s3)"
      using that flags by (simp add: launch_def)
    moreover have "observe (Continue (snd (reaper_loop (waitpid_nohang os) ?s3)))
          = observe (Continue (snd (reaper_loop (waitpid_nohang os) s)))"
      by (rule reaper_loop_observe) (simp_all add: flags)
    ultimately show ?thesis
      using d it reaper_loop_events [of "waitpid_nohang os" ?s3 s] by simp
  qed
  show "fst (shell_iteration os line s)
             = Prompt # Sys_fork # Sys_waitpid (fork os) # fst (reaper_loop (waitpid_nohang os) s)
           \<and> observe (snd (shell_iteration os line s))
             = observe (Continue (snd (reaper_loop (waitpid_nohang os)
                 (s\<lparr>child_exit_status :=
                    (case waitpid_fg os of None \<Rightarrow> child_exit_status s | Some v \<Rightarrow> v)\<rparr>))))"
    if "fork os \<noteq> - 1" "fork os \<noteq> 0" "\<not> amp \<or> foreground_mode_flag s = 1"
  proof -
    let ?v = "case waitpid_fg os of None \<Rightarrow> child_exit_status s | Some v \<Rightarrow> v"
    let ?s3 = "?s2\<lparr>spawnPid := fork os, child_exit_status := ?v\<rparr>"
    have waits: "foreground_mode_flag ?s2 = 1 \<or> background_mode_flag ?s2 = 0"
      using that(3) flags by auto
    have "launch os (hd cmd) ?s2 = ([Sys_fork, Sys_waitpid (fork os)], Continue ?s3)"
      using that(1,2) waits flags(2) by (cases "waitpid_fg os") (simp_all add: launch_def)
    moreover have "observe (Continue (snd (reaper_loop (waitpid_nohang os) ?s3)))
          = observe (Continue (snd (reaper_loop (waitpid_nohang os) (s\<lparr>child_exit_status := ?v\<rparr>))))"
      by (rule reaper_loop_observe) (simp_all add: flags)
    ultimately show ?thesis
      using d it reaper_loop_events [of "waitpid_nohang os" ?s3 s] by simp
  qed
  have in_child: "(\<forall>argv. Sys_execvp argv \<in> set (fst (shell_iteration os line s)) \<longrightarrow> argv = cmd)
          \<and> (snd (child_redirect_in os s1) \<and> snd (child_redirect_out os s1) \<longrightarrow>
               Sys_execvp cmd \<in> set (fst (shell_iteration os line s)))"
    if "fork os = 0"
  proof -
    let ?c = "child os (hd cmd) (?s2\<lparr>spawnPid := 0\<rparr>)"
    have l: "launch os (hd cmd) ?s2 = (Sys_fork # fst ?c, snd ?c)"
      using that by (simp add: launch_def Let_def)
    have "\<not> continues (snd ?c)"
      by (auto simp: child_def Let_def split: prod.splits sum.splits if_splits)
    then have "fst (shell_iteration os line s) = Prompt # Sys_fork # fst ?c"
      using it d l by (cases "snd ?c") simp_all
    then show ?thesis
      using child_stripped(1,3) [OF assms(1,2,3), of os "hd cmd" 0] by auto
  qed
  show "\<forall>argv. Sys_execvp argv \<in> set (fst (shell_iteration os line s)) \<longrightarrow> argv = cmd"
    if "fork os = 0"
    using in_child [OF that] by blast
  show "Sys_execvp cmd \<in> set (fst (shell_iteration os line s))"
    if "fork os = 0" "snd (child_redirect_in os s1)" "snd (child_redirect_out os s1)"
    using in_child [OF that(1)] that(2,3) by blast
qed

text \<open>
  On a plain line every token is a word of its own, so what is stored is what was
  typed, and a plain command followed by \<open>&\<close> is treated as the marker promises. In
  normal mode the shell prints the background pid and goes on without waiting. In
  foreground-only mode it waits for the child and goes on with the child's status.
  The child calls \<^verbatim>\<open>execvp\<close> with exactly the words before the marker: when none of
  them is \<open>&\<close>, no \<open>&\<close> reaches the program.
\<close>

lemma plain_command_marker:
  assumes "command_words cmd" "\<not> builtin (hd cmd)"
  shows "fork os \<noteq> - 1 \<Longrightarrow> fork os \<noteq> 0 \<Longrightarrow> foreground_mode_flag s \<noteq> 1 \<Longrightarrow>
           fst (shell_iteration os (Some (command_text cmd True)) s)
             = Prompt # Sys_fork # Background_pid (fork os) # fst (reaper_loop (waitpid_nohang os) s)
           \<and> observe (snd (shell_iteration os (Some (command_text cmd True)) s))
             = observe (Continue (snd (reaper_loop (waitpid_nohang os) s)))"
    and "fork os \<noteq> - 1 \<Longrightarrow> fork os \<noteq> 0 \<Longrightarrow> foreground_mode_flag s = 1 \<Longrightarrow>
           waitpid_fg os = Some status \<Longrightarrow>
           fst (shell_iteration os (Some (command_text cmd True)) s)
             = Prompt # Sys_fork # Sys_waitpid (fork os) # fst (reaper_loop (waitpid_nohang os) s)
           \<and> observe (snd (shell_iteration os (Some (command_text cmd True)) s))
             = observe (Continue (snd (reaper_loop (waitpid_nohang os)
                 (s\<lparr>child_exit_status := status\<rparr>))))"
    and "fork os = 0 \<Longrightarrow>
           fst (shell_iteration os (Some (command_text cmd True)) s)
             = Prompt # Sys_fork # Sys_execvp cmd
                 # (if execvp os then [] else [Invalid_command (hd cmd)])"
    and "fork os = 0 \<Longrightarrow> ''&'' \<notin> set cmd \<Longrightarrow>
           \<forall>argv. Sys_execvp argv \<in> set (fst (shell_iteration os (Some (command_text cmd True)) s))
             \<longrightarrow> ''&'' \<notin> set argv"
proof -
  let ?line = "Some (command_text cmd True)"
  let ?s1 = "stored (with_marker cmd True) (fresh_locals s)"
  have tok: "tokenize (getpid os) ?line s = Inr ?s1"
    by (rule tokenize_command [OF assms(1)])
  have holds: "holds_words ?s1 (with_marker cmd True)" by (rule holds_words_stored)
  have marked: "marked_command cmd True" by (rule plain_marked [OF assms(1)])
  note ext = external_command_marker [OF tok holds marked assms(2)]
  show "fst (shell_iteration os ?line s)
             = Prompt # Sys_fork # Background_pid (fork os) # fst (reaper_loop (waitpid_nohang os) s)
           \<and> observe (snd (shell_iteration os ?line s))
             = observe (Continue (snd (reaper_loop (waitpid_nohang os) s)))"
    if "fork os \<noteq> - 1" "fork os \<noteq> 0" "foreground_mode_flag s \<noteq> 1"
    using ext(1) that by simp
  show "fst (shell_iteration os ?line s)
             = Prompt # Sys_fork # Sys_waitpid (fork os) # fst (reaper_loop (waitpid_nohang os) s)
           \<and> observe (snd (shell_iteration os ?line s))
             = observe (Continue (snd (reaper_loop (waitpid_nohang os)
                 (s\<lparr>child_exit_status := status\<rparr>))))"
    if "fork os \<noteq> - 1" "fork os \<noteq> 0" "foreground_mode_flag s = 1" "waitpid_fg os = Some status"
    using ext(2) that by simp
  show "fst (shell_iteration os ?line s)
             = Prompt # Sys_fork # Sys_execvp cmd
                 # (if execvp os then [] else [Invalid_command (hd cmd)])"
    if f: "fork os = 0"
  proof -
    let ?s2 = "stripped cmd True ?s1"
    let ?c = "child os (hd cmd) (?s2\<lparr>spawnPid := 0\<rparr>)"
    have d: "dispatch os ?s2 = launch os (hd cmd) ?s2"
      by (rule dispatch_external_holds [OF holds marked assms(2)])
    have l: "launch os (hd cmd) ?s2 = (Sys_fork # fst ?c, snd ?c)"
      using f by (simp add: launch_def Let_def)
    have argv: "read_argv (command_line ?s2) 2048 0 = Inr cmd"
      by (rule stripped_cells(4) [OF holds marked])
    have c: "?c = (if execvp os then ([Sys_execvp cmd], Execed (sigint s) cmd)
                   else ([Sys_execvp cmd, Invalid_command (hd cmd)], Exited 1))"
      using argv
      by (simp add: child_def child_sigint_def child_redirect_in_def child_redirect_out_def
          stripped_def stored_def fresh_locals_def)
    show ?thesis
      using shell_iteration_holds [OF tok holds marked] d l c by simp
  qed
  show "\<forall>argv. Sys_execvp argv \<in> set (fst (shell_iteration os ?line s)) \<longrightarrow> ''&'' \<notin> set argv"
    if "fork os = 0" "''&'' \<notin> set cmd"
    using ext(3) [OF that(1)] that(2) by blast
qed

text \<open>
  Claim C4, on the code. The line is \<^verbatim>\<open>sleep 5 &\<close> with a space between the marker and
  the newline, so its last word is the marker. \<^verbatim>\<open>strtok\<close> splits at spaces only and
  hands the newline over as one more token; \<^verbatim>\<open>sscanf\<close> converts nothing from it and
  leaves \<^verbatim>\<open>str\<close> holding \<open>&\<close>, and line 150 stores a copy of \<^verbatim>\<open>str\<close> all the same. The
  array holds \<open>sleep\<close>, \<open>5\<close>, \<open>&\<close>, \<open>&\<close>, and line 164 strips the last entry only. The
  command does run in the background in normal mode, and in foreground-only mode the
  shell waits for it; but in both modes the child calls \<^verbatim>\<open>execvp\<close> with the vector
  \<open>sleep\<close>, \<open>5\<close>, \<open>&\<close>: the marker is passed to the program as an argument. Without
  the space the vector is \<open>sleep\<close>, \<open>5\<close>.
\<close>

theorem marker_before_trailing_space_reaches_program:
  "fst (shell_iteration quiet_os (Some (''sleep 5 & '' @ [newline])) initial_state)
     = [Prompt, Sys_fork, Background_pid 77, Sys_waitpid_nohang]
   \<and> fst (shell_iteration (quiet_os\<lparr>fork := 0\<rparr>) (Some (''sleep 5 & '' @ [newline])) initial_state)
     = [Prompt, Sys_fork, Sys_execvp [''sleep'', ''5'', ''&'']]
   \<and> fst (run [SIGTSTP, Line quiet_os (Some (''sleep 5 & '' @ [newline]))] initial_state)
     = [Write (write_bytes msg_entering 51), Prompt, Sys_fork, Sys_waitpid 77, Sys_waitpid_nohang]
   \<and> fst (run [SIGTSTP, Line (quiet_os\<lparr>fork := 0\<rparr>) (Some (''sleep 5 & '' @ [newline]))]
        initial_state)
     = [Write (write_bytes msg_entering 51), Prompt, Sys_fork, Sys_execvp [''sleep'', ''5'', ''&'']]
   \<and> fst (shell_iteration (quiet_os\<lparr>fork := 0\<rparr>) (Some (''sleep 5 &'' @ [newline])) initial_state)
     = [Prompt, Sys_fork, Sys_execvp [''sleep'', ''5'']]"
  by code_simp

text \<open>
  The disposition of SIGINT a child is exec'ed with follows the marker alone, whatever
  the mode: the child sets the default only when \<^verbatim>\<open>background_mode_flag\<close> is 0.
\<close>

lemma child_sigint_follows_marker:
  assumes "tokenize (getpid os) line s = Inr s1" "holds_words s1 (with_marker cmd amp)"
    "marked_command cmd amp" "\<not> builtin (hd cmd)" "fork os = 0"
    "snd (child_redirect_in os s1)" "snd (child_redirect_out os s1)" "execvp os"
  shows "snd (shell_iteration os line s) = Execed (if amp then sigint s else SIG_DFL) cmd"
proof -
  let ?c = "child os (hd cmd) ((stripped cmd amp s1)\<lparr>spawnPid := 0\<rparr>)"
  have "dispatch os (stripped cmd amp s1) = launch os (hd cmd) (stripped cmd amp s1)"
    by (rule dispatch_external_holds [OF assms(2,3,4)])
  moreover have "launch os (hd cmd) (stripped cmd amp s1) = (Sys_fork # fst ?c, snd ?c)"
    using assms(5) by (simp add: launch_def Let_def)
  moreover have "snd ?c = Execed (if amp then sigint s else SIG_DFL) cmd"
    using child_stripped(3) [OF assms(1,2,3,6,7), of "hd cmd" 0] assms(8) by simp
  ultimately show ?thesis
    using shell_iteration_holds [OF assms(1,2,3)] by simp
qed

text \<open>
  Claim C5, on the code. Foreground-only mode is on (one SIGTSTP) and the line is
  \<^verbatim>\<open>sleep 5 &\<close>. The parent blocks in \<^verbatim>\<open>waitpid\<close> on the child, which therefore runs in
  the foreground; but the child tests \<^verbatim>\<open>background_mode_flag\<close> alone, finds 1, and is
  exec'ed with SIGINT still ignored. Without the \<open>&\<close> the child is exec'ed with the
  default disposition.
\<close>

theorem forced_foreground_child_ignores_SIGINT:
  "fst (run [SIGTSTP, Line quiet_os (Some (''sleep 5 &'' @ [newline]))] initial_state)
     = [Write (write_bytes msg_entering 51), Prompt, Sys_fork, Sys_waitpid 77, Sys_waitpid_nohang]
   \<and> observe (snd (run [SIGTSTP, Line (quiet_os\<lparr>fork := 0\<rparr>) (Some (''sleep 5 &'' @ [newline]))]
        initial_state))
     = Execs SIG_IGN [''sleep'', ''5'']
   \<and> observe (snd (run [Line (quiet_os\<lparr>fork := 0\<rparr>) (Some (''sleep 5'' @ [newline]))]
        initial_state))
     = Execs SIG_DFL [''sleep'', ''5'']"
  by code_simp

subsection \<open>When \<^verbatim>\<open>fork\<close> fails\<close>

lemma launch_fork_failure: "fork os = - 1 \<Longrightarrow> launch os c s = ([Sys_fork, Perror_fork], Exited 1)"
  by (simp add: launch_def)

lemma dispatch_forks:
  assumes "Sys_fork \<in> set (fst (dispatch os s))"
  shows "\<exists>c. dispatch os s = launch os c s"
  using assms print_status_cases [of "child_exit_status s"]
  by (auto simp: dispatch_def split: cell.splits if_splits)

text \<open>
  Claim C3, as amended. Whatever the line and the state: when the iteration calls
  \<^verbatim>\<open>fork\<close> and \<^verbatim>\<open>fork\<close> returns \<open>- 1\<close>, the shell reports the failure with \<^verbatim>\<open>perror\<close>
  and the shell process itself exits with code 1. Nothing else is printed, no child is
  collected and no further line is read.
\<close>

theorem fork_failure_exits_shell:
  "fork os = - 1 \<Longrightarrow> Sys_fork \<in> set (fst (shell_iteration os line s)) \<Longrightarrow>
     shell_iteration os line s = ([Prompt, Sys_fork, Perror_fork], Exited 1)"
proof -
  assume fail: "fork os = - 1" and forks: "Sys_fork \<in> set (fst (shell_iteration os line s))"
  from forks obtain s1 where s1: "tokenize (getpid os) line s = Inr s1"
    by (cases "tokenize (getpid os) line s") (auto simp: shell_iteration_def)
  from forks s1 have cmd: "is_command s1 = Inr True"
    by (cases "is_command s1") (auto simp: shell_iteration_def split: bool.splits)
  from forks s1 cmd obtain s2 where s2: "strip_background s1 = Inr s2"
    by (cases "strip_background s1") (auto simp: shell_iteration_def)
  obtain evs out where d: "dispatch os s2 = (evs, out)"
    by (cases "dispatch os s2")
  have it: "shell_iteration os line s
            = (case out of
                 Continue s3 \<Rightarrow> (Prompt # evs @ fst (reaper_loop (waitpid_nohang os) s3),
                                 Continue (snd (reaper_loop (waitpid_nohang os) s3)))
               | _ \<Rightarrow> (Prompt # evs, out))"
    using s1 cmd s2 d by (simp add: shell_iteration_def split: outcome.splits)
  have "Sys_fork \<in> set evs"
    using forks it reaper_loop_no_fork by (cases out) auto
  then obtain c where "dispatch os s2 = launch os c s2"
    using dispatch_forks [of os s2] d by auto
  then have "evs = [Sys_fork, Perror_fork]" "out = Exited 1"
    using d launch_fork_failure [OF fail] by simp_all
  then show ?thesis using it by simp
qed

lemma command_words_ls: "command_words [''ls'']"
  by (simp add: command_words_def simple_word_def isspace_def starts_with_dd_def dollar_def)

lemma command_text_ls: "command_text [''ls''] False = ''ls'' @ [newline]"
  by (simp add: command_text_def with_marker_def)

theorem fork_failure_exits_shell_witness:
  "fork (quiet_os\<lparr>fork := - 1\<rparr>) = - 1
   \<and> Sys_fork \<in> set (fst (shell_iteration (quiet_os\<lparr>fork := - 1\<rparr>) (Some (''ls'' @ [newline])) initial_state))
   \<and> shell_iteration (quiet_os\<lparr>fork := - 1\<rparr>) (Some (''ls'' @ [newline])) initial_state
       = ([Prompt, Sys_fork, Perror_fork], Exited 1)"
proof -
  have fail: "fork (quiet_os\<lparr>fork := - 1\<rparr>) = - 1" by simp
  have forks: "Sys_fork \<in> set (fst (shell_iteration (quiet_os\<lparr>fork := - 1\<rparr>)
      (Some (''ls'' @ [newline])) initial_state))"
    by code_simp
  show ?thesis
    using fail forks fork_failure_exits_shell [OF fail forks] by simp
qed

text \<open>
  The claim as it was stated has the shell survive a failed \<^verbatim>\<open>fork\<close>. On the line
  \<^verbatim>\<open>ls\<close> with \<^verbatim>\<open>fork\<close> failing, the process exits with code 1.
\<close>

theorem fork_failure_counterexample:
  "observe (snd (shell_iteration (quiet_os\<lparr>fork := - 1\<rparr>) (Some (''ls'' @ [newline])) initial_state))
     = Exits 1"
  by code_simp

section \<open>The \<^verbatim>\<open>status\<close> built-in\<close>

text \<open>
  \<^verbatim>\<open>status\<close> prints whatever \<^verbatim>\<open>child_exit_status\<close> holds. After a foreground command
  with no child collected in the same iteration that is the status of that command: an
  exit code \<open>n\<close> arrives as \<open>n * 256\<close> and is printed as \<open>n\<close>, a signal number
  arrives as itself and is printed raw.
\<close>

lemma status_builtin_prints_variable:
  "fst (shell_iteration os (Some (''status'' @ [newline])) s)
     = Prompt # print_status (child_exit_status s) # fst (reaper_loop (waitpid_nohang os) s)"
proof -
  have cmd: "command_words [''status'']"
    by (simp add: command_words_def simple_word_def isspace_def starts_with_dd_def dollar_def)
  have spelled: "command_text [''status''] False = ''status'' @ [newline]"
    by (simp add: command_text_def with_marker_def)
  have b: "builtin (hd [''status''])" by (simp add: builtin_def)
  show ?thesis
    using builtin_iteration
      [OF tokenize_command [OF cmd, of "getpid os" False s] holds_words_stored plain_marked [OF cmd] b]
    by (simp add: spelled builtin_calls_def)
qed

lemma foreground_wait_sets_status:
  assumes "tokenize (getpid os) line s = Inr s1" "holds_words s1 (with_marker cmd amp)"
    "marked_command cmd amp" "\<not> builtin (hd cmd)"
    "\<not> amp \<or> foreground_mode_flag s = 1"
    "fork os \<noteq> - 1" "fork os \<noteq> 0" "waitpid_fg os = Some status" "waitpid_nohang os = []"
  shows "observe (snd (shell_iteration os line s)) = Goes_on (foreground_mode_flag s = 1) status"
proof -
  note flags = stripped_untouched(1,4) [OF assms(1), of cmd amp]
  have "dispatch os (stripped cmd amp s1) = launch os (hd cmd) (stripped cmd amp s1)"
    by (rule dispatch_external_holds [OF assms(2,3,4)])
  moreover have "launch os (hd cmd) (stripped cmd amp s1)
      = ([Sys_fork, Sys_waitpid (fork os)],
         Continue ((stripped cmd amp s1)\<lparr>spawnPid := fork os, child_exit_status := status\<rparr>))"
    using assms(5-8) flags by (auto simp: launch_def)
  ultimately show ?thesis
    using shell_iteration_holds [OF assms(1,2,3)] assms(9) flags(1) by simp
qed

text \<open>
  Claim C1, on the code. Three sessions in which \<^verbatim>\<open>status\<close> does not report the exit
  status of the last foreground command. (1) Before any command the variable holds its
  initial value \<open>- 5\<close>, which decodes as a signal: the shell prints
  \<^verbatim>\<open>terminated by signal -5\<close>, not an exit value of 0. (2) A foreground command exits
  with code 1; a background child (pid 5, exit code 0) is collected after the next line,
  through the same variable; \<^verbatim>\<open>status\<close> then prints \<^verbatim>\<open>exit value 0\<close>. (3) A foreground
  command is killed by signal 11 with a core dump, so its status is \<open>11 + 128\<close>; the
  shell prints the raw status 139, not 11.
\<close>

theorem status_reports_raw_variable:
  "fst (shell_iteration quiet_os (Some (''status'' @ [newline])) initial_state)
     = [Prompt, Terminated_by_signal (- 5), Sys_waitpid_nohang]
   \<and> fst (run [Line (quiet_os\<lparr>waitpid_fg := Some 256\<rparr>) (Some (''false'' @ [newline])),
               Line (quiet_os\<lparr>waitpid_nohang := [(5, 0)]\<rparr>) (Some (''status'' @ [newline])),
               Line quiet_os (Some (''status'' @ [newline]))] initial_state)
     = [Prompt, Sys_fork, Sys_waitpid 77, Sys_waitpid_nohang,
        Prompt, Exit_value 1, Sys_waitpid_nohang, Background_done 5, Exit_value 0,
        Sys_waitpid_nohang,
        Prompt, Exit_value 0, Sys_waitpid_nohang]
   \<and> fst (run [Line (quiet_os\<lparr>waitpid_fg := Some 139\<rparr>) (Some (''crash'' @ [newline])),
               Line quiet_os (Some (''status'' @ [newline]))] initial_state)
     = [Prompt, Sys_fork, Sys_waitpid 77, Sys_waitpid_nohang,
        Prompt, Terminated_by_signal 139, Sys_waitpid_nohang]"
  by code_simp

section \<open>Where the collecting loop runs\<close>

lemma child_no_poll: "Sys_waitpid_nohang \<notin> set (fst (child os c s))"
  by (auto simp: child_def child_sigint_def child_redirect_in_def child_redirect_out_def Let_def
      split: if_splits sum.splits prod.splits)

lemma launch_no_poll: "Sys_waitpid_nohang \<notin> set (fst (launch os c s))"
  using child_no_poll by (auto simp: launch_def Let_def)

lemma dispatch_no_poll: "Sys_waitpid_nohang \<notin> set (fst (dispatch os s))"
  using launch_no_poll [of os _ s] print_status_cases [of "child_exit_status s"]
  by (auto simp: dispatch_def split: cell.splits if_splits)

text \<open>
  Claim C2, as amended. The loop that collects finished children stands inside the
  guard of line 161. When the line is blank or a comment the iteration prints the prompt
  and does nothing else: no \<^verbatim>\<open>waitpid\<close> is called and finished children stay
  uncollected. When the line is a command, the loop runs exactly when dispatch comes
  back to the main loop (not after \<open>exit\<close>, a failed \<^verbatim>\<open>fork\<close> or a fault), it runs
  last, and nothing before it polls. When it runs and the system has children ready, it
  reports each of them in the order the system hands them over and then polls once
  more.
\<close>

theorem reaper_runs_only_after_dispatch:
  "tokenize (getpid os) line s = Inr s1 \<Longrightarrow>
     (is_command s1 = Inr False \<longrightarrow> shell_iteration os line s = ([Prompt], Continue s1))
     \<and> (is_command s1 = Inr True \<longrightarrow>
          (Sys_waitpid_nohang \<in> set (fst (shell_iteration os line s)))
            = continues (snd (shell_iteration os line s))
          \<and> (continues (snd (shell_iteration os line s)) \<longrightarrow>
               (\<exists>evs. fst (shell_iteration os line s)
                         = Prompt # evs @ fst (reaper_loop (waitpid_nohang os) s)
                      \<and> Sys_waitpid_nohang \<notin> set evs)))
     \<and> (list_all (\<lambda>(p, status). 0 < p) (waitpid_nohang os) \<longrightarrow>
          fst (reaper_loop (waitpid_nohang os) s)
            = concat (map (\<lambda>(p, status). [Sys_waitpid_nohang, Background_done p, print_status status])
                (waitpid_nohang os)) @ [Sys_waitpid_nohang])"
proof -
  assume s1: "tokenize (getpid os) line s = Inr s1"
  have noop: "shell_iteration os line s = ([Prompt], Continue s1)" if "is_command s1 = Inr False"
    using s1 that by (simp add: shell_iteration_def)
  have command: "(Sys_waitpid_nohang \<in> set (fst (shell_iteration os line s)))
            = continues (snd (shell_iteration os line s))
          \<and> (continues (snd (shell_iteration os line s)) \<longrightarrow>
               (\<exists>evs. fst (shell_iteration os line s)
                         = Prompt # evs @ fst (reaper_loop (waitpid_nohang os) s)
                      \<and> Sys_waitpid_nohang \<notin> set evs))"
    if cmd: "is_command s1 = Inr True"
  proof (cases "strip_background s1")
    case (Inl f)
    then show ?thesis using s1 cmd by (simp add: shell_iteration_def)
  next
    case (Inr s2)
    obtain evs out where d: "dispatch os s2 = (evs, out)"
      by (cases "dispatch os s2")
    have quiet: "Sys_waitpid_nohang \<notin> set evs"
      using dispatch_no_poll [of os s2] d by simp
    show ?thesis
    proof (cases out)
      case (Continue s3)
      have "shell_iteration os line s
            = (Prompt # evs @ fst (reaper_loop (waitpid_nohang os) s),
               Continue (snd (reaper_loop (waitpid_nohang os) s3)))"
        using s1 cmd Inr d Continue reaper_loop_events [of "waitpid_nohang os" s3 s]
        by (simp add: shell_iteration_def)
      then show ?thesis using quiet reaper_loop_polls by auto
    next
      case (Exited n)
      then show ?thesis using s1 cmd Inr d quiet by (simp add: shell_iteration_def)
    next
      case (Crashed e)
      then show ?thesis using s1 cmd Inr d quiet by (simp add: shell_iteration_def)
    next
      case (Execed disp argv)
      then show ?thesis using s1 cmd Inr d quiet by (simp add: shell_iteration_def)
    qed
  qed
  show ?thesis
    using noop command reaper_loop_collects [of "waitpid_nohang os" s] by blast
qed

lemma simple_word_comment: "list_all simple_word [''#note'']"
  by (simp add: simple_word_def isspace_def starts_with_dd_def dollar_def)

theorem reaper_runs_only_after_dispatch_witness:
  "tokenize (getpid (quiet_os\<lparr>waitpid_nohang := [(5, 0)]\<rparr>)) (Some (''#note'' @ [newline])) initial_state
     = Inr (stored [''#note''] (fresh_locals initial_state))
   \<and> is_command (stored [''#note''] (fresh_locals initial_state)) = Inr False
   \<and> shell_iteration (quiet_os\<lparr>waitpid_nohang := [(5, 0)]\<rparr>) (Some (''#note'' @ [newline])) initial_state
       = ([Prompt], Continue (stored [''#note''] (fresh_locals initial_state)))
   \<and> tokenize (getpid (quiet_os\<lparr>waitpid_nohang := [(5, 0)]\<rparr>)) (Some (''ls'' @ [newline])) initial_state
       = Inr (stored [''ls''] (fresh_locals initial_state))
   \<and> is_command (stored [''ls''] (fresh_locals initial_state)) = Inr True
   \<and> continues (snd (shell_iteration (quiet_os\<lparr>waitpid_nohang := [(5, 0)]\<rparr>)
        (Some (''ls'' @ [newline])) initial_state))
   \<and> Sys_waitpid_nohang \<in> set (fst (shell_iteration (quiet_os\<lparr>waitpid_nohang := [(5, 0)]\<rparr>)
        (Some (''ls'' @ [newline])) initial_state))
   \<and> list_all (\<lambda>(p, status). 0 < p) (waitpid_nohang (quiet_os\<lparr>waitpid_nohang := [(5, 0)]\<rparr>))
   \<and> fst (reaper_loop (waitpid_nohang (quiet_os\<lparr>waitpid_nohang := [(5, 0)]\<rparr>)) initial_state)
       = [Sys_waitpid_nohang, Background_done 5, Exit_value 0, Sys_waitpid_nohang]"
proof -
  let ?os = "quiet_os\<lparr>waitpid_nohang := [(5, 0)]\<rparr>"
  have tok1: "tokenize (getpid ?os) (Some (''#note'' @ [newline])) initial_state
     = Inr (stored [''#note''] (fresh_locals initial_state))"
    using tokenize_words [OF _ simple_word_comment, of "getpid ?os" initial_state] by simp
  have no: "is_command (stored [''#note''] (fresh_locals initial_state)) = Inr False"
    by (simp add: is_command_def stored_def stored_cells_def fresh_locals_def initial_state_def)
  have tok2: "tokenize (getpid ?os) (Some (''ls'' @ [newline])) initial_state
       = Inr (stored [''ls''] (fresh_locals initial_state))"
    using tokenize_command [OF command_words_ls, of "getpid ?os" False initial_state]
    by (simp add: command_text_ls with_marker_def)
  have yes: "is_command (stored [''ls''] (fresh_locals initial_state)) = Inr True"
    using is_command_holds [OF holds_words_stored plain_marked [OF command_words_ls, of False],
        of initial_state]
    by (simp add: with_marker_def)
  have goes: "continues (snd (shell_iteration ?os (Some (''ls'' @ [newline])) initial_state))"
    by code_simp
  have ready: "list_all (\<lambda>(p, status). 0 < p) (waitpid_nohang ?os)"
    by simp
  have zero: "print_status 0 = Exit_value 0"
    by (simp add: print_status_def WIFEXITED_def WTERMSIG_def WEXITSTATUS_def)
  show ?thesis
    using reaper_runs_only_after_dispatch [OF tok1]
      reaper_runs_only_after_dispatch [OF tok2]
      tok1 no tok2 yes goes ready zero
    by simp
qed

text \<open>
  The claim as it was stated has the loop run after every line. Here a background
  command is started, its child (pid 77) is ready to be collected, and a blank line is
  entered: the second iteration prints the prompt only.
\<close>

theorem reaper_skipped_on_blank_line_counterexample:
  "fst (run [Line quiet_os (Some (''sleep 1 &'' @ [newline])),
             Line (quiet_os\<lparr>waitpid_nohang := [(77, 0)]\<rparr>) (Some [newline])] initial_state)
     = [Prompt, Sys_fork, Background_pid 77, Sys_waitpid_nohang, Prompt]"
  by code_simp

section \<open>Blank lines, comments and malformed lines\<close>

lemma noop_line_keeps_shell_state:
  assumes "tokenize (getpid os) line s = Inr s1" "is_command s1 = Inr False"
  shows "fst (shell_iteration os line s) = [Prompt]"
    and "observe (snd (shell_iteration os line s)) = observe (Continue s)"
  using assms tokenize_untouched [OF assms(1)]
  by (simp_all add: shell_iteration_def untouched_def)

lemma blank_line_is_noop:
  assumes "str s = Some w"
  shows "shell_iteration os (Some [newline]) s
         = ([Prompt], Continue (s\<lparr> input_file := [], output_file := [], index := 1,
                                      command_line := (command_line s)(0 := Null) \<rparr>))"
  using assms
  by (simp add: shell_iteration_def tokenize_def fgets_def strtok_all_def space_def newline_def
      fresh_locals_def sscanf_s_def scan_word_def isspace_def starts_with_dd_def dollar_def
      store_word_def blank_check_def is_command_def)

text \<open>
  Claim C9, on the code. A line holding a single space is not caught by the test
  \<^verbatim>\<open>user_input[0] == '\n'\<close>: its only token is the newline, \<^verbatim>\<open>sscanf\<close> converts nothing,
  and the word left in \<^verbatim>\<open>str\<close> by the previous line is stored as the command. After
  \<^verbatim>\<open>ls\<close>, the line runs \<^verbatim>\<open>ls\<close> again (the trace of the child ends in \<^verbatim>\<open>execvp\<close> of
  \<^verbatim>\<open>ls\<close>), and the foreground wait overwrites the last status (here 0 becomes 512).
\<close>

theorem whitespace_line_runs_stale_word:
  "fst (run [Line quiet_os (Some (''ls'' @ [newline])),
             Line (quiet_os\<lparr>fork := 0\<rparr>) (Some ('' '' @ [newline]))] initial_state)
     = [Prompt, Sys_fork, Sys_waitpid 77, Sys_waitpid_nohang,
        Prompt, Sys_fork, Sys_sigaction_SIGINT SIG_DFL, Sys_execvp [''ls'']]
   \<and> observe (snd (run [Line quiet_os (Some (''ls'' @ [newline]))] initial_state))
     = Goes_on False 0
   \<and> observe (snd (run [Line quiet_os (Some (''ls'' @ [newline])),
             Line (quiet_os\<lparr>waitpid_fg := Some 512\<rparr>) (Some ('' '' @ [newline]))] initial_state))
     = Goes_on False 512"
  by code_simp

lemma lone_marker_faults:
  "shell_iteration os (Some (''&'' @ [newline])) s = ([Prompt], Crashed NullDeref)"
  by (simp add: shell_iteration_def tokenize_def fgets_def strtok_all_def space_def newline_def
      fresh_locals_def sscanf_s_def scan_word_def isspace_def starts_with_dd_def dollar_def
      store_word_def blank_check_def is_command_def strip_background_def dispatch_def)

lemma missing_path_faults:
  "shell_iteration os (Some ''cat <'') s = ([Prompt], Crashed NullDeref)"
  by (simp add: shell_iteration_def tokenize_def fgets_def strtok_all_def space_def newline_def
      fresh_locals_def sscanf_s_def scan_word_def isspace_def starts_with_dd_def dollar_def
      store_word_def)

lemma operator_before_newline_is_argument:
  "fst (shell_iteration (quiet_os\<lparr>fork := 0\<rparr>) (Some (''cat <'' @ [newline])) initial_state)
     = [Prompt, Sys_fork, Sys_sigaction_SIGINT SIG_DFL, Sys_execvp [''cat'', ''<'']]"
  by code_simp

text \<open>
  Claim C7, on the code. In any state, a line holding only \<open>&\<close> makes the shell store
  NULL in \<^verbatim>\<open>command_line[0]\<close> and hand it to \<^verbatim>\<open>strcmp\<close>; a line that ends, without a
  newline, in the token \<open><\<close> makes it hand the NULL that \<^verbatim>\<open>strtok\<close> returns to \<^verbatim>\<open>sscanf\<close>.
  Both are null pointer reads, and no diagnostic is printed. When the operator is
  followed directly by the newline it is not recognised at all and goes to the program
  as an argument.
\<close>

theorem malformed_lines_read_null:
  "shell_iteration os (Some (''&'' @ [newline])) s = ([Prompt], Crashed NullDeref)
   \<and> shell_iteration os (Some ''cat <'') s = ([Prompt], Crashed NullDeref)
   \<and> fst (shell_iteration (quiet_os\<lparr>fork := 0\<rparr>) (Some (''cat <'' @ [newline])) initial_state)
       = [Prompt, Sys_fork, Sys_sigaction_SIGINT SIG_DFL, Sys_execvp [''cat'', ''<'']]"
  using lone_marker_faults missing_path_faults operator_before_newline_is_argument by simp

end
